theory Spec2Isabelle
  imports Complex_Main
begin

section \<open>The streaming progress reader of the \<open>useSSE\<close> hook\<close>

text \<open>
  This theory embeds the function \<open>connectSSE\<close> of the React hook \<open>useSSE\<close>
  (the hook's source is the second document of \<open>frontend/src/main.tsx\<close>) and the effect
  that starts it. The hook posts a request with \<open>fetch\<close>, reads the response body chunk
  by chunk, cuts the decoded text into lines, parses every line that starts with
  \<open>data: \<close> as JSON and reports what it finds through the React state setters and the
  two optional callbacks.

  The browser is not code of the repository. Its parts appear as follows.
  \<^item> \<open>JSON.parse\<close> is a parameter \<open>parse\<close>: \<open>None\<close> when it throws a SyntaxError,
    \<open>Some v\<close> with the parsed JavaScript value otherwise.
  \<^item> \<open>decoder.decode(value, {stream: true})\<close> is a parameter \<open>dec\<close> that takes the
    decoder's state and a chunk and returns the decoded text and the next state.
  \<^item> \<open>fetch\<close> and \<open>reader.read()\<close> are given by what they settle to: a response or a
    rejection, and a list of read results that ends when the stream is done.
  \<^item> Text is a \<open>string\<close>; the reader only looks for the line feed and the six
    characters \<open>data: \<close>, which are single code units in JavaScript's strings too.
\<close>

subsection \<open>JavaScript values\<close>

text \<open>
  What \<open>JSON.parse\<close> returns. \<open>JNull\<close> is JavaScript's \<open>null\<close>, also the initial
  value of the hook's \<open>data\<close> and \<open>error\<close> states. A number is a finite double, here a
  rational (the two zeros are one value; both are falsy).
\<close>

datatype json =
    JNull
  | JBool bool
  | JNum rat
  | JStr string
  | JArr "json list"
  | JObj "(string \<times> json) list"

text \<open>
  Reading a property \<open>v.k\<close> of a value other than \<open>null\<close>, for the three names the
  reader uses (\<open>type\<close>, \<open>message\<close>, \<open>result\<close>): \<open>None\<close> is \<open>undefined\<close>. Only an object
  built by \<open>JSON.parse\<close> can have such a property. Reading a property of \<open>null\<close> throws
  a TypeError; \<open>handle_line\<close> tests for \<open>null\<close> before it reads.
\<close>

fun member :: "json \<Rightarrow> string \<Rightarrow> json option" where
  "member (JObj kvs) k = map_of kvs k"
| "member _ k = None"

text \<open>JavaScript's truthiness, as \<open>||\<close> and \<open>&&\<close> test it; \<open>None\<close> is \<open>undefined\<close>.\<close>

fun truthy :: "json option \<Rightarrow> bool" where
  "truthy None = False"
| "truthy (Some JNull) = False"
| "truthy (Some (JBool b)) = b"
| "truthy (Some (JNum n)) = (n \<noteq> 0)"
| "truthy (Some (JStr s)) = (s \<noteq> [])"
| "truthy (Some (JArr xs)) = True"
| "truthy (Some (JObj kvs)) = True"

text \<open>\<open>a || d\<close> for a default \<open>d\<close>.\<close>

fun js_or :: "json option \<Rightarrow> json \<Rightarrow> json" where
  "js_or None d = d"
| "js_or (Some v) d = (if truthy (Some v) then v else d)"

text \<open>A thrown value: its \<open>name\<close> and its \<open>message\<close>.\<close>

record js_error =
  err_name :: string
  err_message :: string

definition Error :: "string \<Rightarrow> js_error" where
  "Error msg = \<lparr>err_name = ''Error'', err_message = msg\<rparr>"

subsection \<open>The hook's state and what it calls\<close>

text \<open>
  Every call of a state setter, of a callback and of \<open>console.error\<close> is logged in
  the order it is made. (\<open>reader.cancel()\<close> is seen in the reader's state.)
\<close>

datatype event =
    SetData json
  | SetIsConnected bool
  | SetIsComplete bool
  | SetError json
  | OnComplete json
  | OnError json
  | ConsoleError string

text \<open>
  The four \<open>useState\<close> cells of the hook and the log. The TypeScript type of \<open>error\<close> is
  \<open>string | null\<close>; at run time it holds whatever \<open>update.message\<close> was, so it is a
  \<open>json\<close> here.
\<close>

record hook =
  data :: json
  isConnected :: bool
  isComplete :: bool
  error :: json
  calls :: "event list"

definition initial_hook :: hook where
  "initial_hook =
     \<lparr>data = JNull, isConnected = False, isComplete = False, error = JNull, calls = []\<rparr>"

definition setData :: "json \<Rightarrow> hook \<Rightarrow> hook" where
  "setData v h = h\<lparr>data := v, calls := calls h @ [SetData v]\<rparr>"

definition setIsConnected :: "bool \<Rightarrow> hook \<Rightarrow> hook" where
  "setIsConnected b h = h\<lparr>isConnected := b, calls := calls h @ [SetIsConnected b]\<rparr>"

definition setIsComplete :: "bool \<Rightarrow> hook \<Rightarrow> hook" where
  "setIsComplete b h = h\<lparr>isComplete := b, calls := calls h @ [SetIsComplete b]\<rparr>"

definition setError :: "json \<Rightarrow> hook \<Rightarrow> hook" where
  "setError v h = h\<lparr>error := v, calls := calls h @ [SetError v]\<rparr>"

definition logged :: "event \<Rightarrow> hook \<Rightarrow> hook" where
  "logged e h = h\<lparr>calls := calls h @ [e]\<rparr>"

text \<open>
  The options of the hook. The two callbacks are optional; the flags say whether the
  caller passed them. A callback that is called is logged; the callbacks of the
  application (\<open>handleComplete\<close> and \<open>handleError\<close> in \<open>App.tsx\<close>) log and set state and
  do not throw.
\<close>

record options =
  enabled :: bool
  has_onComplete :: bool
  has_onError :: bool

subsection \<open>The response body's reader\<close>

text \<open>
  One \<open>await reader.read()\<close> settles to a chunk or rejects; when the list is used up the
  stream is done. \<open>reader.cancel()\<close> closes the stream at once, so that every later
  \<open>read()\<close> reports done and takes nothing more from the source.
\<close>

datatype 'b read_result = Chunk 'b | Rejected js_error

record 'b reader =
  pending :: "'b read_result list"
  cancelled :: bool

datatype 'b read_outcome = Done | Got 'b | Throws js_error

fun reader_read :: "'b reader \<Rightarrow> 'b read_outcome \<times> 'b reader" where
  "reader_read r =
     (if cancelled r then (Done, r)
      else case pending r of
        [] \<Rightarrow> (Done, r)
      | Chunk v # rest \<Rightarrow> (Got v, r\<lparr>pending := rest\<rparr>)
      | Rejected e # rest \<Rightarrow> (Throws e, r\<lparr>pending := rest\<rparr>))"

definition reader_cancel :: "'b reader \<Rightarrow> 'b reader" where
  "reader_cancel r = r\<lparr>cancelled := True\<rparr>"

definition getReader :: "'b read_result list \<Rightarrow> 'b reader" where
  "getReader src = \<lparr>pending = src, cancelled = False\<rparr>"

subsection \<open>Strings\<close>

definition nl :: char where
  "nl = CHR 0x0A"

text \<open>
  \<open>s.split('\n')\<close>: the pieces between the line feeds, in order. The result is never
  empty: a string without a line feed gives the one piece \<open>s\<close>, and the empty string
  gives one empty piece.
\<close>

fun split_nl :: "string \<Rightarrow> string list" where
  "split_nl [] = [[]]"
| "split_nl (c # cs) =
     (let r = split_nl cs in
      if c = nl then [] # r else (c # hd r) # tl r)"

text \<open>\<open>xs.pop()\<close>: the last element (\<open>undefined\<close> on an empty array) and the array without it.\<close>

definition pop :: "'a list \<Rightarrow> 'a option \<times> 'a list" where
  "pop xs = (if xs = [] then (None, []) else (Some (last xs), butlast xs))"

text \<open>\<open>x || ''\<close> for a string or \<open>undefined\<close>.\<close>

fun or_empty :: "string option \<Rightarrow> string" where
  "or_empty None = []"
| "or_empty (Some s) = (if s = [] then [] else s)"

definition startsWith :: "string \<Rightarrow> string \<Rightarrow> bool" where
  "startsWith s p = (take (length p) s = p)"

definition slice :: "string \<Rightarrow> nat \<Rightarrow> string" where
  "slice s n = drop n s"

text \<open>The decimal digits of a number, as a template literal prints \<open>response.status\<close>.\<close>

fun show_nat :: "nat \<Rightarrow> string" where
  "show_nat n =
     (if n < 10 then [''0123456789'' ! n]
      else show_nat (n div 10) @ [''0123456789'' ! (n mod 10)])"

declare show_nat.simps [simp del]

subsection \<open>One line\<close>

datatype flow = Continue | Break

text \<open>
  The \<open>catch\<close> of the inner \<open>try\<close>: it logs to the console, sets the error state to a
  fixed text, cancels the reader and leaves the \<open>for\<close> loop. It calls no callback.
\<close>

definition parse_failed :: "hook \<times> 'b reader \<Rightarrow> flow \<times> hook \<times> 'b reader" where
  "parse_failed s =
     (case s of (h, r) \<Rightarrow>
        let h1 = logged (ConsoleError ''Failed to parse SSE message:'') h;
            h2 = setError (JStr ''Failed to parse progress update'') h1;
            r1 = reader_cancel r
        in (Break, h2, r1))"

text \<open>
  The body of the \<open>for\<close> loop for one line. A line that does not start with \<open>data: \<close> is
  skipped. Otherwise the rest of the line is parsed. A SyntaxError of \<open>JSON.parse\<close>, and
  the TypeError of reading \<open>update.type\<close> when the parsed value is \<open>null\<close> (after
  \<open>setData\<close> has run), are caught by the inner \<open>catch\<close>.
\<close>

definition handle_line ::
  "(string \<Rightarrow> json option) \<Rightarrow> options \<Rightarrow> string \<Rightarrow> hook \<times> 'b reader \<Rightarrow> flow \<times> hook \<times> 'b reader"
where
  "handle_line parse P line s =
     (case s of (h, r) \<Rightarrow>
        if startsWith line ''data: '' then
          let jsonData = slice line 6 in
          (case parse jsonData of
             None \<Rightarrow> parse_failed (h, r)
           | Some update \<Rightarrow>
               let h1 = setData update h in
               if update = JNull then parse_failed (h1, r)
               else if member update ''type'' = Some (JStr ''complete'') then
                 let h2 = setIsComplete True h1;
                     r2 = reader_cancel r;
                     h3 = (if has_onComplete P \<and> truthy (member update ''result'')
                           then logged (OnComplete (js_or (member update ''result'') JNull)) h2
                           else h2)
                 in (Break, h3, r2)
               else if member update ''type'' = Some (JStr ''error'') then
                 let errorMsg = js_or (member update ''message'') (JStr ''Analysis failed'');
                     h2 = setError errorMsg h1;
                     r2 = reader_cancel r;
                     h3 = (if has_onError P then logged (OnError errorMsg) h2 else h2)
                 in (Break, h3, r2)
               else (Continue, h1, r))
        else (Continue, h, r))"

text \<open>The \<open>for\<close> loop over the completed lines of one chunk: it stops at the first \<open>break\<close>.\<close>

fun for_lines ::
  "(string \<Rightarrow> json option) \<Rightarrow> options \<Rightarrow> string list \<Rightarrow> hook \<times> 'b reader \<Rightarrow> hook \<times> 'b reader"
where
  "for_lines parse P [] s = s"
| "for_lines parse P (line # lines) s =
     (case handle_line parse P line s of
        (Break, s') \<Rightarrow> s'
      | (Continue, s') \<Rightarrow> for_lines parse P lines s')"

subsection \<open>The read loop\<close>

text \<open>
  Neither a line nor the \<open>for\<close> loop takes anything from the source: they can only cancel
  the reader. The \<open>while\<close> loop below ends for that reason.
\<close>

lemma handle_line_pending:
  "handle_line parse P line (h, r) = (f, h', r') \<Longrightarrow> pending r' = pending r"
  by (auto simp: handle_line_def parse_failed_def reader_cancel_def Let_def
      split: if_splits option.splits)

lemma for_lines_pending:
  "for_lines parse P lines (h, r) = (h', r') \<Longrightarrow> pending r' = pending r"
proof (induction lines arbitrary: h r)
  case Nil
  then show ?case by simp
next
  case (Cons line lines)
  obtain f h1 r1 where hl: "handle_line parse P line (h, r) = (f, h1, r1)"
    by (metis prod_cases3)
  have p1: "pending r1 = pending r"
    using hl by (rule handle_line_pending)
  show ?case
  proof (cases f)
    case Continue
    with Cons.prems hl have "for_lines parse P lines (h1, r1) = (h', r')" by simp
    then have "pending r' = pending r1" by (rule Cons.IH)
    with p1 show ?thesis by simp
  next
    case Break
    with Cons.prems hl have "r' = r1" by simp
    with p1 show ?thesis by simp
  qed
qed

text \<open>
  The \<open>while (true)\<close> loop of \<open>connectSSE\<close>, with the decoder's state, the line buffer,
  the hook and the reader passed along. It returns the error that left the loop, if one
  did: a rejected \<open>read()\<close> is the only one that is not caught inside. The \<open>break\<close> of the
  \<open>for\<close> loop does not leave the \<open>while\<close> loop: the loop reads again, and ends because the
  cancelled reader reports done.
\<close>

function read_loop ::
  "(string \<Rightarrow> json option) \<Rightarrow> options \<Rightarrow> ('d \<Rightarrow> 'b \<Rightarrow> string \<times> 'd) \<Rightarrow> 'd \<Rightarrow> string \<Rightarrow>
   hook \<Rightarrow> 'b reader \<Rightarrow> js_error option \<times> hook \<times> 'b reader"
where
  "read_loop parse P dec d buffer h r =
     (case reader_read r of
        (Done, r1) \<Rightarrow> (None, h, r1)
      | (Throws e, r1) \<Rightarrow> (Some e, h, r1)
      | (Got v, r1) \<Rightarrow>
          (case dec d v of (txt, d1) \<Rightarrow>
             let buffer1 = buffer @ txt;
                 lines = split_nl buffer1
             in (case pop lines of (l, lines1) \<Rightarrow>
                   let buffer2 = or_empty l
                   in (case for_lines parse P lines1 (h, r1) of (h1, r2) \<Rightarrow>
                         read_loop parse P dec d1 buffer2 h1 r2))))"
  by pat_completeness auto
termination
proof (relation "measure (\<lambda>(parse, P, dec, d, buffer, h, r). length (pending r))")
  show "wf (measure (\<lambda>(parse, P, dec, d, buffer, h, r). length (pending r)))"
    by simp
next
  fix parse :: "string \<Rightarrow> json option" and P :: options
    and dec :: "'d \<Rightarrow> 'b \<Rightarrow> string \<times> 'd" and d :: 'd and buffer :: string and h :: hook
    and r :: "'b reader" and x1 r1 v d1 lines1 buffer2 h1 r2
  assume rd: "(x1, r1) = reader_read r" and got: "x1 = Got v"
    and fl: "(h1, r2) = for_lines parse P lines1 (h, r1)"
  have "pending r2 = pending r1"
    using fl [symmetric] by (rule for_lines_pending)
  moreover have "length (pending r1) < length (pending r)"
    using rd got by (auto split: if_splits list.splits read_result.splits)
  ultimately show "((parse, P, dec, d1, buffer2, h1, r2), (parse, P, dec, d, buffer, h, r))
      \<in> measure (\<lambda>(parse, P, dec, d, buffer, h, r). length (pending r))"
    by simp
qed

declare read_loop.simps [simp del]

subsection \<open>The connection\<close>

text \<open>
  What \<open>await fetch(...)\<close> settles to. \<open>body\<close> is \<open>None\<close> when \<open>response.body\<close> is
  \<open>null\<close>; otherwise it holds what the reads of the body's reader will settle to.
  \<open>response.ok\<close> is true for the statuses 200 to 299.
\<close>

record 'b response =
  status :: nat
  statusText :: string
  body :: "'b read_result list option"

datatype 'b fetch_result = FetchRejected js_error | FetchResolved "'b response"

definition ok :: "'b response \<Rightarrow> bool" where
  "ok resp = (200 \<le> status resp \<and> status resp \<le> 299)"

text \<open>
  The \<open>try\<close> block of \<open>connectSSE\<close>: the error that reaches the outer \<open>catch\<close>, if any,
  the hook and the reader (when one was made).
\<close>

definition connect_try ::
  "(string \<Rightarrow> json option) \<Rightarrow> options \<Rightarrow> ('d \<Rightarrow> 'b \<Rightarrow> string \<times> 'd) \<Rightarrow> 'd \<Rightarrow>
   'b fetch_result \<Rightarrow> hook \<Rightarrow> js_error option \<times> hook \<times> 'b reader option"
where
  "connect_try parse P dec d0 fr h =
     (case fr of
        FetchRejected e \<Rightarrow> (Some e, h, None)
      | FetchResolved resp \<Rightarrow>
          if \<not> ok resp then
            (Some (Error (''HTTP '' @ show_nat (status resp) @ '': '' @ statusText resp)),
             h, None)
          else
            let h1 = setIsConnected True h in
            (case body resp of
               None \<Rightarrow> (Some (Error ''No response body''), h1, None)
             | Some src \<Rightarrow>
                 (case read_loop parse P dec d0 [] h1 (getReader src) of
                    (e, h2, r) \<Rightarrow> (e, h2, Some r))))"

text \<open>
  The outer \<open>catch\<close>. \<open>captured\<close> is the value of \<open>isComplete\<close> that the closure holds:
  the state of the render that ran the effect, not what \<open>setIsComplete\<close> has set since.
\<close>

definition connect_catch :: "options \<Rightarrow> bool \<Rightarrow> js_error \<Rightarrow> hook \<Rightarrow> hook" where
  "connect_catch P captured err h =
     (if err_name err = ''AbortError'' then h
      else
        let h1 = logged (ConsoleError ''SSE connection error:'') h;
            msg = (if err_message err \<noteq> [] then err_message err else ''Connection failed'');
            h2 = setError (JStr msg) h1;
            h3 = setIsConnected False h2
        in if has_onError P \<and> \<not> captured then logged (OnError (JStr msg)) h3 else h3)"

definition connectSSE ::
  "(string \<Rightarrow> json option) \<Rightarrow> options \<Rightarrow> bool \<Rightarrow> ('d \<Rightarrow> 'b \<Rightarrow> string \<times> 'd) \<Rightarrow> 'd \<Rightarrow>
   'b fetch_result \<Rightarrow> hook \<Rightarrow> hook \<times> 'b reader option"
where
  "connectSSE parse P captured dec d0 fr h =
     (case connect_try parse P dec d0 fr h of
        (None, h1, r) \<Rightarrow> (h1, r)
      | (Some err, h1, r) \<Rightarrow> (connect_catch P captured err h1, r))"

text \<open>
  The effect of \<open>useSSE\<close>: nothing when the hook is disabled or the URL is empty;
  otherwise the four states are reset and the connection runs. The closure of
  \<open>connectSSE\<close> holds the \<open>isComplete\<close> of the render, which is the state before the reset.
\<close>

definition useSSE_effect ::
  "(string \<Rightarrow> json option) \<Rightarrow> string \<Rightarrow> options \<Rightarrow> ('d \<Rightarrow> 'b \<Rightarrow> string \<times> 'd) \<Rightarrow> 'd \<Rightarrow>
   'b fetch_result \<Rightarrow> hook \<Rightarrow> hook \<times> 'b reader option"
where
  "useSSE_effect parse url P dec d0 fr h =
     (if enabled P \<and> url \<noteq> [] then
        let h1 = setData JNull h;
            h2 = setIsComplete False h1;
            h3 = setError JNull h2;
            h4 = setIsConnected False h3
        in connectSSE parse P (isComplete h) dec d0 fr h4
      else (h, None))"

text \<open>
  The cleanup that an enabled effect returns; React runs it before the effect runs again
  and when the component unmounts. \<open>abort()\<close> acts on a connection through its
  inputs: a pending \<open>fetch\<close> or \<open>read()\<close> rejects with an \<open>AbortError\<close>. A connection that
  has returned is not touched by it. What is left is the call of the setter.
\<close>

definition cleanup :: "hook \<Rightarrow> hook" where
  "cleanup h = setIsConnected False h"

section \<open>Streams and logs\<close>

text \<open>
  The definitions of this section are not code of the hook: they describe the inputs and
  the logs that the theorems speak about.
\<close>

text \<open>The text that a list of chunks decodes to, one chunk after the other, and the decoder's
  state after them.\<close>

fun decode_all :: "('d \<Rightarrow> 'b \<Rightarrow> string \<times> 'd) \<Rightarrow> 'd \<Rightarrow> 'b list \<Rightarrow> string \<times> 'd" where
  "decode_all dec d [] = ([], d)"
| "decode_all dec d (c # cs) =
     (case dec d c of (t, d1) \<Rightarrow>
        case decode_all dec d1 cs of (ts, d2) \<Rightarrow> (t @ ts, d2))"

text \<open>The text of a list of completed lines: every line is followed by a line feed.\<close>

definition unlines :: "string list \<Rightarrow> string" where
  "unlines ls = concat (map (\<lambda>l. l @ [nl]) ls)"

text \<open>The line that carries a payload.\<close>

definition data_line :: "string \<Rightarrow> string" where
  "data_line p = ''data: '' @ p"

text \<open>What a line gives to \<open>JSON.parse\<close>, when it is a \<open>data: \<close> line and the parse succeeds.\<close>

definition frame_of :: "(string \<Rightarrow> json option) \<Rightarrow> string \<Rightarrow> json option" where
  "frame_of parse line = (if startsWith line ''data: '' then parse (slice line 6) else None)"

text \<open>The lines at which the \<open>for\<close> loop breaks (\<open>handle_line_flow\<close> below proves it):
  a \<open>data: \<close> line whose payload does not parse, or parses to \<open>null\<close>, or has the type
  \<open>complete\<close> or \<open>error\<close>.\<close>

definition stops :: "(string \<Rightarrow> json option) \<Rightarrow> string \<Rightarrow> bool" where
  "stops parse line =
     (startsWith line ''data: '' \<and>
      (case parse (slice line 6) of
         None \<Rightarrow> True
       | Some u \<Rightarrow> u = JNull \<or> member u ''type'' = Some (JStr ''complete'')
           \<or> member u ''type'' = Some (JStr ''error'')))"

text \<open>The parsed values of the \<open>data: \<close> lines among the given lines, in order.\<close>

definition parsed_frames :: "(string \<Rightarrow> json option) \<Rightarrow> string list \<Rightarrow> json list" where
  "parsed_frames parse ls = List.map_filter (frame_of parse) ls"

text \<open>The hook after \<open>setData\<close> was called with each value in turn.\<close>

definition emit_all :: "json list \<Rightarrow> hook \<Rightarrow> hook" where
  "emit_all us h = foldl (\<lambda>h u. setData u h) h us"

text \<open>The frames that a log emitted: the arguments of its \<open>setData\<close> calls, in order.\<close>

fun emitted :: "event list \<Rightarrow> json list" where
  "emitted [] = []"
| "emitted (SetData u # es) = u # emitted es"
| "emitted (e # es) = emitted es"

text \<open>
  The four resets at the start of the effect (\<open>useSSE_effect_enabled\<close> below shows
  that the effect runs the connection from this state).
\<close>

definition reset :: "hook \<Rightarrow> hook" where
  "reset h = setIsConnected False (setError JNull (setIsComplete False (setData JNull h)))"

text \<open>
  A log is justified when each callback in it has its cause in it: \<open>onComplete\<close> was
  passed the truthy \<open>result\<close> of an emitted frame of the type \<open>complete\<close>, and
  \<open>onError\<close> was passed the message (or the default text) of an emitted frame of the type
  \<open>error\<close>.
\<close>

definition justified :: "options \<Rightarrow> event list \<Rightarrow> bool" where
  "justified P es =
     ((\<forall>v. OnComplete v \<in> set es \<longrightarrow>
         has_onComplete P \<and>
         (\<exists>u. SetData u \<in> set es \<and> member u ''type'' = Some (JStr ''complete'') \<and>
              member u ''result'' = Some v \<and> truthy (Some v))) \<and>
      (\<forall>m. OnError m \<in> set es \<longrightarrow>
         has_onError P \<and>
         (\<exists>u. SetData u \<in> set es \<and> member u ''type'' = Some (JStr ''error'') \<and>
              m = js_or (member u ''message'') (JStr ''Analysis failed''))))"

text \<open>
  A later state of the hook extends an earlier one when its log is the earlier log plus
  justified calls, and the completed state, if new, comes with an emitted frame of the
  type \<open>complete\<close>.
\<close>

definition extends :: "options \<Rightarrow> hook \<Rightarrow> hook \<Rightarrow> bool" where
  "extends P h h' =
     (\<exists>es. calls h' = calls h @ es \<and> justified P es \<and>
        (isComplete h' \<longrightarrow>
           isComplete h \<or>
           (\<exists>u. SetData u \<in> set es \<and> member u ''type'' = Some (JStr ''complete''))))"

section \<open>Sample inputs\<close>

text \<open>
  Concrete inputs for the theorems below: chunks that are given as the text they decode
  to, a few payloads with the value that \<open>JSON.parse\<close> returns for each, and a parser
  that knows these payloads and rejects every other text.
\<close>

definition decode_text :: "unit \<Rightarrow> string \<Rightarrow> string \<times> unit" where
  "decode_text d c = (c, d)"

definition progress_json :: string where
  \<open>progress_json = ''{"type":"progress","message":"starting","progress":0}''\<close>

definition progress_value :: json where
  "progress_value =
     JObj [(''type'', JStr ''progress''), (''message'', JStr ''starting''), (''progress'', JNum 0)]"

definition complete_json :: string where
  \<open>complete_json = ''{"type":"complete","result":{"drug":"warfarin"}}''\<close>

definition complete_value :: json where
  "complete_value =
     JObj [(''type'', JStr ''complete''), (''result'', JObj [(''drug'', JStr ''warfarin'')])]"

definition heartbeat_json :: string where
  \<open>heartbeat_json = ''{"type":"heartbeat"}''\<close>

definition heartbeat_value :: json where
  "heartbeat_value = JObj [(''type'', JStr ''heartbeat'')]"

definition error_json :: string where
  \<open>error_json = ''{"type":"error","message":"DrugBank unavailable"}''\<close>

definition error_value :: json where
  "error_value = JObj [(''type'', JStr ''error''), (''message'', JStr ''DrugBank unavailable'')]"

definition empty_error_json :: string where
  \<open>empty_error_json = ''{"type":"error","message":""}''\<close>

definition empty_error_value :: json where
  "empty_error_value = JObj [(''type'', JStr ''error''), (''message'', JStr [])]"

definition null_result_json :: string where
  \<open>null_result_json = ''{"type":"complete","result":null}''\<close>

definition null_result_value :: json where
  "null_result_value = JObj [(''type'', JStr ''complete''), (''result'', JNull)]"

text \<open>A pipeline error whose message is the text that the reader uses for a parse failure.\<close>

definition lookalike_error_json :: string where
  \<open>lookalike_error_json = ''{"type":"error","message":"Failed to parse progress update"}''\<close>

definition lookalike_error_value :: json where
  "lookalike_error_value =
     JObj [(''type'', JStr ''error''), (''message'', JStr ''Failed to parse progress update'')]"

text \<open>The two halves of the line that carries \<open>complete_json\<close>, cut inside the payload.\<close>

definition complete_head :: string where
  \<open>complete_head = ''data: {"type":"comp''\<close>

definition complete_tail :: string where
  \<open>complete_tail = ''lete","result":{"drug":"warfarin"}}''\<close>

definition malformed_json :: string where
  \<open>malformed_json = ''{not json''\<close>

definition demo_parse :: "string \<Rightarrow> json option" where
  "demo_parse =
     map_of
       [(progress_json, progress_value),
        (complete_json, complete_value),
        (heartbeat_json, heartbeat_value),
        (error_json, error_value),
        (empty_error_json, empty_error_value),
        (null_result_json, null_result_value),
        (lookalike_error_json, lookalike_error_value)]"

lemmas demo_defs =
  demo_parse_def progress_json_def progress_value_def complete_json_def complete_value_def
  heartbeat_json_def heartbeat_value_def error_json_def error_value_def empty_error_json_def
  empty_error_value_def null_result_json_def null_result_value_def malformed_json_def
  complete_head_def complete_tail_def lookalike_error_json_def lookalike_error_value_def

definition demo_options :: options where
  "demo_options = \<lparr>enabled = True, has_onComplete = True, has_onError = True\<rparr>"

definition ok_response :: "'b read_result list \<Rightarrow> 'b response" where
  "ok_response src = \<lparr>status = 200, statusText = ''OK'', body = Some src\<rparr>"

definition abort_error :: js_error where
  "abort_error = \<lparr>err_name = ''AbortError'', err_message = ''The user aborted a request.''\<rparr>"


text \<open>
  The URL of the stream, and a response that reports a server error.
\<close>

definition demo_url :: string where
  "demo_url = ''/api/analyze-stream''"

definition server_error :: "string response" where
  "server_error = \<lparr>status = 500, statusText = ''Internal Server Error'', body = None\<rparr>"

text \<open>
  The state of the hook when a second session starts, as the application reaches it
  (\<open>App.tsx\<close>): a first session completes, \<open>handleComplete\<close> disables the hook, so React
  runs the cleanup and then the effect, which returns at once. Nothing resets
  \<open>isComplete\<close> on the way. (No \<open>fetch\<close> is made by a disabled effect; the response given to
  it here is not looked at.)
\<close>

definition disabled_options :: options where
  "disabled_options = \<lparr>enabled = False, has_onComplete = True, has_onError = True\<rparr>"

definition after_completed_session :: hook where
  "after_completed_session =
     fst (useSSE_effect demo_parse demo_url disabled_options decode_text ()
            (FetchResolved server_error)
            (cleanup
               (fst (useSSE_effect demo_parse demo_url demo_options decode_text ()
                       (FetchResolved (ok_response [Chunk (data_line complete_json @ [nl])]))
                       initial_hook))))"

section \<open>Lines and chunks\<close>

text \<open>
  Splitting commutes with appending: the lines that a text completes are the lines that
  its first part completes, followed by the lines that the rest completes once it is
  appended to the last, unfinished piece of the first part. This is what the buffer of
  the read loop relies on.
\<close>

lemma split_nl_nonempty: "split_nl s \<noteq> []"
  by (induction s) (auto simp: Let_def)

lemma split_nl_no_nl: "nl \<notin> set s \<Longrightarrow> split_nl s = [s]"
  by (induction s) (auto simp: Let_def)

lemma split_nl_line: "nl \<notin> set a \<Longrightarrow> split_nl (a @ nl # b) = a # split_nl b"
  by (induction a) (auto simp: Let_def)

lemma split_nl_append:
  "split_nl (a @ b) =
     butlast (split_nl a) @ [last (split_nl a) @ hd (split_nl b)] @ tl (split_nl b)"
proof (induction a)
  case Nil
  then show ?case using split_nl_nonempty [of b] by simp
next
  case (Cons c a)
  show ?case
  proof (cases "c = nl")
    case True
    then show ?thesis using Cons split_nl_nonempty [of a] by (simp add: Let_def)
  next
    case False
    then show ?thesis using Cons split_nl_nonempty [of a]
      apply (simp add: Let_def)
      apply (cases "split_nl a")
       apply simp
      apply (auto simp: butlast_append split: if_splits)
      done
  qed
qed

lemma last_split_nl_no_nl: "nl \<notin> set (last (split_nl s))"
proof (induction s)
  case Nil
  then show ?case by simp
next
  case (Cons c s)
  then show ?case
    using split_nl_nonempty [of s]
    by (cases "split_nl s") (auto simp: Let_def)
qed

lemma butlast_split_nl_append:
  "butlast (split_nl (a @ b)) =
     butlast (split_nl a) @ butlast (split_nl (last (split_nl a) @ b))"
proof -
  have n: "nl \<notin> set (last (split_nl a))" by (rule last_split_nl_no_nl)
  have "split_nl (last (split_nl a) @ b) = [last (split_nl a) @ hd (split_nl b)] @ tl (split_nl b)"
    using split_nl_append [of "last (split_nl a)" b] split_nl_no_nl [OF n] by simp
  then show ?thesis
    using split_nl_append [of a b] by (simp add: butlast_append)
qed

lemma last_split_nl_append:
  "last (split_nl (a @ b)) = last (split_nl (last (split_nl a) @ b))"
proof -
  have n: "nl \<notin> set (last (split_nl a))" by (rule last_split_nl_no_nl)
  have "split_nl (last (split_nl a) @ b) = [last (split_nl a) @ hd (split_nl b)] @ tl (split_nl b)"
    using split_nl_append [of "last (split_nl a)" b] split_nl_no_nl [OF n] by simp
  then show ?thesis
    using split_nl_append [of a b] by simp
qed

text \<open>
  A line either leaves the reader as it is and goes on, or cancels it and breaks. What a
  line does to the hook does not depend on the reader.
\<close>

lemma pop_split_nl: "pop (split_nl s) = (Some (last (split_nl s)), butlast (split_nl s))"
  by (simp add: pop_def split_nl_nonempty)

lemma handle_line_reader:
  "handle_line parse P line (h, r) = (f, h', r') \<Longrightarrow>
     (f = Continue \<and> r' = r) \<or> (f = Break \<and> r' = reader_cancel r)"
  by (auto simp: handle_line_def parse_failed_def Let_def split: if_splits option.splits)

lemma handle_line_hook_indep:
  "fst (snd (handle_line parse P line (h, r))) = fst (snd (handle_line parse P line (h, r0)))"
  "fst (handle_line parse P line (h, r)) = fst (handle_line parse P line (h, r0))"
  by (auto simp: handle_line_def parse_failed_def Let_def split: if_splits option.splits)

lemma for_lines_reader:
  "for_lines parse P lines (h, r) = (h', r') \<Longrightarrow> r' = r \<or> r' = reader_cancel r"
proof (induction lines arbitrary: h r)
  case Nil
  then show ?case by simp
next
  case (Cons line lines)
  obtain f h1 r1 where hl: "handle_line parse P line (h, r) = (f, h1, r1)"
    by (metis prod_cases3)
  from handle_line_reader [OF hl] show ?case
  proof
    assume "f = Continue \<and> r1 = r"
    with Cons.prems hl have "for_lines parse P lines (h1, r) = (h', r')" by simp
    then show ?thesis by (rule Cons.IH)
  next
    assume "f = Break \<and> r1 = reader_cancel r"
    with Cons.prems hl show ?thesis by simp
  qed
qed

lemma for_lines_append:
  assumes "\<not> cancelled r"
  shows "for_lines parse P (xs @ ys) (h, r) =
     (case for_lines parse P xs (h, r) of (h', r') \<Rightarrow>
        if cancelled r' then (h', r') else for_lines parse P ys (h', r'))"
  using assms
proof (induction xs arbitrary: h)
  case Nil
  then show ?case by simp
next
  case (Cons line xs)
  obtain f h1 r1 where hl: "handle_line parse P line (h, r) = (f, h1, r1)"
    by (metis prod_cases3)
  from handle_line_reader [OF hl] show ?case
  proof
    assume c: "f = Continue \<and> r1 = r"
    then show ?thesis using hl Cons by simp
  next
    assume b: "f = Break \<and> r1 = reader_cancel r"
    then show ?thesis using hl by (simp add: reader_cancel_def)
  qed
qed

text \<open>
  The read loop over chunks is the \<open>for\<close> loop over the completed lines of the whole
  decoded text, up to the line that cancels the reader; if no line does, the loop goes on
  with what follows the chunks, the last piece of the text in its buffer.
\<close>

lemma read_loop_cancelled: "cancelled r \<Longrightarrow> read_loop parse P dec d buffer h r = (None, h, r)"
  by (simp add: read_loop.simps)

lemma for_lines_other_reader:
  assumes "for_lines parse P lines (h, r) = (h', r')" and "\<not> cancelled r"
  shows "for_lines parse P lines (h, r0) = (h', if cancelled r' then reader_cancel r0 else r0)"
  using assms
proof (induction lines arbitrary: h)
  case Nil
  then show ?case by auto
next
  case (Cons line lines)
  obtain f h1 r1 where hl: "handle_line parse P line (h, r) = (f, h1, r1)"
    by (metis prod_cases3)
  obtain f0 h0 r01 where hl0: "handle_line parse P line (h, r0) = (f0, h0, r01)"
    by (metis prod_cases3)
  have same: "f0 = f" "h0 = h1"
    using handle_line_hook_indep [of parse P line h r r0] hl hl0 by simp_all
  from handle_line_reader [OF hl] show ?case
  proof
    assume c: "f = Continue \<and> r1 = r"
    then have "r01 = r0" using handle_line_reader [OF hl0] same by auto
    moreover have "for_lines parse P lines (h1, r) = (h', r')"
      using Cons.prems(1) hl c by simp
    ultimately show ?thesis
      using Cons.IH [OF _ Cons.prems(2)] hl0 same c by simp
  next
    assume b: "f = Break \<and> r1 = reader_cancel r"
    then have "r01 = reader_cancel r0" using handle_line_reader [OF hl0] same by auto
    moreover have "h' = h1" "r' = reader_cancel r"
      using Cons.prems(1) hl b by simp_all
    ultimately show ?thesis
      using hl0 same b by (simp add: reader_cancel_def)
  qed
qed

lemma getReader_not_cancelled: "\<not> cancelled (getReader x)"
  by (simp add: getReader_def)

lemma read_loop_Chunk:
  "read_loop parse P dec d buffer h (getReader (Chunk c # src)) =
     (case dec d c of (t, d1) \<Rightarrow>
        case for_lines parse P (butlast (split_nl (buffer @ t))) (h, getReader src) of
          (h1, r2) \<Rightarrow> read_loop parse P dec d1 (last (split_nl (buffer @ t))) h1 r2)"
  by (subst read_loop.simps) (simp add: getReader_def pop_split_nl Let_def split: prod.splits)

lemma read_loop_chunks:
  assumes "nl \<notin> set buffer"
    and "decode_all dec d cs = (t, d')"
    and "for_lines parse P (butlast (split_nl (buffer @ t))) (h, getReader rest) = (h', r')"
  shows "if cancelled r'
         then \<exists>r2. read_loop parse P dec d buffer h (getReader (map Chunk cs @ rest)) = (None, h', r2)
                \<and> cancelled r2
         else read_loop parse P dec d buffer h (getReader (map Chunk cs @ rest)) =
                read_loop parse P dec d' (last (split_nl (buffer @ t))) h' (getReader rest)"
  using assms
proof (induction cs arbitrary: d buffer h t d')
  case Nil
  then show ?case by (auto simp: split_nl_no_nl getReader_def)
next
  case (Cons c cs)
  obtain t1 d1 where d1: "dec d c = (t1, d1)" by (metis prod.exhaust)
  obtain ts d2 where d2: "decode_all dec d1 cs = (ts, d2)" by (metis prod.exhaust)
  have t: "t = t1 @ ts" and d': "d' = d2"
    using Cons.prems(2) d1 d2 by simp_all
  let ?src = "map Chunk cs @ rest"
  let ?b2 = "last (split_nl (buffer @ t1))"
  let ?l1 = "butlast (split_nl (buffer @ t1))"
  obtain h1 r1 where f1: "for_lines parse P ?l1 (h, getReader ?src) = (h1, r1)"
    by (metis prod.exhaust)
  note nc = getReader_not_cancelled
  have f1': "for_lines parse P ?l1 (h, getReader rest) =
      (h1, if cancelled r1 then reader_cancel (getReader rest) else getReader rest)"
    using for_lines_other_reader [OF f1 nc] .
  have step: "read_loop parse P dec d buffer h (getReader (map Chunk (c # cs) @ rest)) =
      read_loop parse P dec d1 ?b2 h1 r1"
    using d1 f1 by (simp add: read_loop_Chunk)
  have lines: "butlast (split_nl (buffer @ t)) = ?l1 @ butlast (split_nl (?b2 @ ts))"
    and lst: "last (split_nl (buffer @ t)) = last (split_nl (?b2 @ ts))"
    using butlast_split_nl_append [of "buffer @ t1" ts] last_split_nl_append [of "buffer @ t1" ts]
    by (simp_all add: t)
  have whole: "for_lines parse P (butlast (split_nl (buffer @ t))) (h, getReader rest) =
      (if cancelled r1 then (h1, reader_cancel (getReader rest))
       else for_lines parse P (butlast (split_nl (?b2 @ ts))) (h1, getReader rest))"
    using for_lines_append [OF nc, of parse P ?l1 _ h rest] f1'
    by (simp add: lines reader_cancel_def nc)
  show ?case
  proof (cases "cancelled r1")
    case True
    then have "h' = h1" "cancelled r'"
      using whole Cons.prems(3) by (simp_all add: reader_cancel_def)
    then show ?thesis
      using step True by (simp add: read_loop_cancelled)
  next
    case False
    then have r1: "r1 = getReader ?src"
      using for_lines_reader [OF f1] by (auto simp: reader_cancel_def)
    have "for_lines parse P (butlast (split_nl (?b2 @ ts))) (h1, getReader rest) = (h', r')"
      using whole False Cons.prems(3) by simp
    from Cons.IH [OF last_split_nl_no_nl d2 this]
    show ?thesis
      using step r1 lst d' by simp
  qed
qed

text \<open>
  Lines that do not stop the reader only emit their frames; the first line that stops it
  ends the \<open>for\<close> loop.
\<close>

lemma split_nl_unlines:
  "list_all (\<lambda>l. nl \<notin> set l) ls \<Longrightarrow> split_nl (unlines ls @ t) = ls @ split_nl t"
  by (induction ls) (simp_all add: unlines_def split_nl_line)

lemma handle_line_flow:
  "fst (handle_line parse P line (h, r)) = (if stops parse line then Break else Continue)"
  by (auto simp: handle_line_def parse_failed_def stops_def Let_def split: option.splits)

lemma handle_line_inert:
  "\<not> stops parse line \<Longrightarrow>
   handle_line parse P line (h, r) =
     (Continue, (case frame_of parse line of None \<Rightarrow> h | Some u \<Rightarrow> setData u h), r)"
  by (auto simp: handle_line_def stops_def frame_of_def Let_def split: option.splits)

lemma emit_all_simps:
  "emit_all [] h = h"
  "emit_all (u # us) h = emit_all us (setData u h)"
  by (simp_all add: emit_all_def)

lemma emit_all_append: "emit_all (us @ vs) h = emit_all vs (emit_all us h)"
  by (simp add: emit_all_def)

lemma parsed_frames_append:
  "parsed_frames parse (xs @ ys) = parsed_frames parse xs @ parsed_frames parse ys"
  by (simp add: parsed_frames_def map_filter_def)

lemma emit_all_fields:
  "calls (emit_all us h) = calls h @ map SetData us"
  "error (emit_all us h) = error h"
  "isComplete (emit_all us h) = isComplete h"
  "isConnected (emit_all us h) = isConnected h"
  by (induction us arbitrary: h) (simp_all add: emit_all_simps setData_def)

lemma for_lines_inert:
  "list_all (\<lambda>l. \<not> stops parse l) ls \<Longrightarrow>
   for_lines parse P (ls @ ms) (h, r) =
     for_lines parse P ms (emit_all (parsed_frames parse ls) h, r)"
proof (induction ls arbitrary: h)
  case Nil
  then show ?case by (simp add: parsed_frames_def emit_all_simps map_filter_simps)
next
  case (Cons l ls)
  then have l: "\<not> stops parse l" and ls: "list_all (\<lambda>l. \<not> stops parse l) ls"
    by simp_all
  show ?case
    by (cases "frame_of parse l")
      (simp_all add: Cons.IH [OF ls] handle_line_inert [OF l] parsed_frames_def
        emit_all_simps map_filter_simps)
qed

lemma for_lines_stop:
  assumes "list_all (\<lambda>l. \<not> stops parse l) ls" and "stops parse l"
  shows "for_lines parse P (ls @ l # ms) (h, r) =
     snd (handle_line parse P l (emit_all (parsed_frames parse ls) h, r))"
proof -
  obtain f h1 r1 where hl:
    "handle_line parse P l (emit_all (parsed_frames parse ls) h, r) = (f, h1, r1)"
    by (metis prod_cases3)
  then have "f = Break"
    using handle_line_flow [of parse P l "emit_all (parsed_frames parse ls) h" r] assms(2)
    by simp
  then show ?thesis
    by (simp add: for_lines_inert [OF assms(1)] hl)
qed

lemma data_line_simps:
  "startsWith (data_line p) ''data: ''"
  "slice (data_line p) 6 = p"
  "nl \<notin> set (data_line p) \<longleftrightarrow> nl \<notin> set p"
  by (auto simp: data_line_def startsWith_def slice_def nl_def)

lemma unlines_append: "unlines (xs @ ys) = unlines xs @ unlines ys"
  by (simp add: unlines_def)

lemma unlines_single: "unlines [l] = l @ [nl]"
  by (simp add: unlines_def)

lemma read_loop_done: "read_loop parse P dec d buffer h (getReader []) = (None, h, getReader [])"
  by (subst read_loop.simps) (simp add: getReader_def)

lemma read_loop_Rejected:
  "read_loop parse P dec d buffer h (getReader (Rejected e # rest)) = (Some e, h, getReader rest)"
  by (subst read_loop.simps) (simp add: getReader_def)

lemma read_loop_stops:
  assumes tx: "fst (decode_all dec d cs) = unlines ls @ l @ [nl] @ extra"
    and ls: "list_all (\<lambda>l. nl \<notin> set l \<and> \<not> stops parse l) ls"
    and l: "nl \<notin> set l" "stops parse l"
  shows "\<exists>r2. read_loop parse P dec d [] h (getReader (map Chunk cs @ rest)) =
           (None, fst (snd (handle_line parse P l (emit_all (parsed_frames parse ls) h, r0))), r2)
         \<and> cancelled r2"
proof -
  obtain t d' where dec: "decode_all dec d cs = (t, d')" by (metis prod.exhaust)
  with tx have t: "t = unlines ls @ l @ [nl] @ extra" by simp
  have ls1: "list_all (\<lambda>l. nl \<notin> set l) ls" and ls2: "list_all (\<lambda>l. \<not> stops parse l) ls"
    using ls by (simp_all add: list_all_iff)
  have sp: "split_nl t = ls @ l # split_nl extra"
    using split_nl_unlines [OF ls1, of "l @ nl # extra"] split_nl_line [OF l(1), of extra]
    by (simp add: t)
  have bl: "butlast (split_nl ([] @ t)) = ls @ l # butlast (split_nl extra)"
    using split_nl_nonempty [of extra] by (simp add: sp butlast_append)
  obtain f h1 r1 where hl:
    "handle_line parse P l (emit_all (parsed_frames parse ls) h, getReader rest) = (f, h1, r1)"
    by (metis prod_cases3)
  have f: "f = Break"
    using handle_line_flow [of parse P l "emit_all (parsed_frames parse ls) h" "getReader rest"]
      hl l(2) by simp
  then have r1: "cancelled r1"
    using handle_line_reader [OF hl] by (auto simp: reader_cancel_def)
  have fl: "for_lines parse P (butlast (split_nl ([] @ t))) (h, getReader rest) = (h1, r1)"
    by (simp only: bl for_lines_stop [OF ls2 l(2)] hl snd_conv)
  have h1: "h1 = fst (snd (handle_line parse P l (emit_all (parsed_frames parse ls) h, r0)))"
    using handle_line_hook_indep(1)
      [of parse P l "emit_all (parsed_frames parse ls) h" "getReader rest" r0] hl
    by simp
  have "nl \<notin> set ([] :: string)" by simp
  from read_loop_chunks [OF this dec fl] r1 h1 show ?thesis by simp
qed

lemma read_loop_runs_out:
  assumes tx: "fst (decode_all dec d cs) = unlines ls @ tail"
    and ls: "list_all (\<lambda>l. nl \<notin> set l \<and> \<not> stops parse l) ls"
    and tail: "nl \<notin> set tail"
  shows "read_loop parse P dec d [] h (getReader (map Chunk cs @ rest)) =
           read_loop parse P dec (snd (decode_all dec d cs)) tail
             (emit_all (parsed_frames parse ls) h) (getReader rest)"
proof -
  obtain t d' where dec: "decode_all dec d cs = (t, d')" by (metis prod.exhaust)
  with tx have t: "t = unlines ls @ tail" by simp
  have ls1: "list_all (\<lambda>l. nl \<notin> set l) ls" and ls2: "list_all (\<lambda>l. \<not> stops parse l) ls"
    using ls by (simp_all add: list_all_iff)
  have sp: "split_nl t = ls @ [tail]"
    using split_nl_unlines [OF ls1, of tail] split_nl_no_nl [OF tail] by (simp add: t)
  have "for_lines parse P ls (h, getReader rest) =
      (emit_all (parsed_frames parse ls) h, getReader rest)"
    using for_lines_inert [OF ls2, of P "[]" h "getReader rest"] by simp
  then have fl: "for_lines parse P (butlast (split_nl ([] @ t))) (h, getReader rest) =
      (emit_all (parsed_frames parse ls) h, getReader rest)"
    by (simp add: sp)
  have "nl \<notin> set ([] :: string)" by simp
  from read_loop_chunks [OF this dec fl] show ?thesis
    by (simp add: getReader_not_cancelled sp dec)
qed

lemma connect_try_streaming:
  "ok resp \<Longrightarrow> body resp = Some src \<Longrightarrow>
   connect_try parse P dec d0 (FetchResolved resp) h =
     (case read_loop parse P dec d0 [] (setIsConnected True h) (getReader src) of
        (e, h2, r) \<Rightarrow> (e, h2, Some r))"
  by (simp add: connect_try_def)

lemma handle_line_parse_error:
  "parse p = None \<Longrightarrow>
   handle_line parse P (data_line p) (h, r) =
     (Break,
      setError (JStr ''Failed to parse progress update'')
        (logged (ConsoleError ''Failed to parse SSE message:'') h),
      reader_cancel r)"
  by (simp add: handle_line_def data_line_simps parse_failed_def)

lemma handle_line_complete:
  "parse p = Some u \<Longrightarrow> member u ''type'' = Some (JStr ''complete'') \<Longrightarrow>
   handle_line parse P (data_line p) (h, r) =
     (Break,
      (if has_onComplete P \<and> truthy (member u ''result'')
       then logged (OnComplete (js_or (member u ''result'') JNull))
              (setIsComplete True (setData u h))
       else setIsComplete True (setData u h)),
      reader_cancel r)"
  by (cases u) (auto simp: handle_line_def data_line_simps Let_def)

lemma handle_line_error:
  "parse p = Some u \<Longrightarrow> member u ''type'' = Some (JStr ''error'') \<Longrightarrow>
   handle_line parse P (data_line p) (h, r) =
     (Break,
      (if has_onError P
       then logged (OnError (js_or (member u ''message'') (JStr ''Analysis failed'')))
              (setError (js_or (member u ''message'') (JStr ''Analysis failed'')) (setData u h))
       else setError (js_or (member u ''message'') (JStr ''Analysis failed'')) (setData u h)),
      reader_cancel r)"
  by (cases u) (auto simp: handle_line_def data_line_simps Let_def)

lemma stops_data_line:
  "parse p = None \<Longrightarrow> stops parse (data_line p)"
  "parse p = Some u \<Longrightarrow> member u ''type'' = Some (JStr ''complete'') \<Longrightarrow> stops parse (data_line p)"
  "parse p = Some u \<Longrightarrow> member u ''type'' = Some (JStr ''error'') \<Longrightarrow> stops parse (data_line p)"
  by (simp_all add: stops_def data_line_simps)

lemma progress_lines:
  assumes "list_all2 (\<lambda>p u. nl \<notin> set p \<and> parse p = Some u \<and>
             member u ''type'' = Some (JStr ''progress'')) ps us"
  shows "list_all (\<lambda>l. nl \<notin> set l \<and> \<not> stops parse l) (map data_line ps)"
    and "parsed_frames parse (map data_line ps) = us"
  using assms
  by (induction ps us rule: list_all2_induct)
    (auto simp: data_line_simps stops_def parsed_frames_def frame_of_def)

lemma emitted_append: "emitted (xs @ ys) = emitted xs @ emitted ys"
  by (induction xs rule: emitted.induct) simp_all

lemma emitted_SetData: "emitted (map SetData us) = us"
  by (induction us) simp_all

section \<open>A whole connection\<close>

text \<open>
  The three ways a connection with a good response can go, for a body whose chunks decode
  to completed lines \<open>ls\<close> that do not stop the reader: a further line stops it;
  the stream ends; a read is rejected.
\<close>

lemma connectSSE_stops:
  assumes tx: "fst (decode_all dec d0 cs) = unlines (ls @ [l]) @ extra"
    and ls: "list_all (\<lambda>l. nl \<notin> set l \<and> \<not> stops parse l) ls"
    and l: "nl \<notin> set l" "stops parse l"
    and resp: "ok resp" "body resp = Some (map Chunk cs @ rest)"
  shows "\<exists>r. connectSSE parse P captured dec d0 (FetchResolved resp) h =
           (fst (snd (handle_line parse P l
              (emit_all (parsed_frames parse ls) (setIsConnected True h), getReader rest))),
            Some r)
         \<and> cancelled r"
proof -
  have tx': "fst (decode_all dec d0 cs) = unlines ls @ l @ [nl] @ extra"
    using tx by (simp add: unlines_append unlines_single)
  from read_loop_stops [OF tx' ls l, of P "setIsConnected True h" rest "getReader rest"]
  obtain r2 where
    "read_loop parse P dec d0 [] (setIsConnected True h) (getReader (map Chunk cs @ rest)) =
       (None,
        fst (snd (handle_line parse P l
          (emit_all (parsed_frames parse ls) (setIsConnected True h), getReader rest))),
        r2)"
    and "cancelled r2"
    by blast
  then show ?thesis
    by (simp add: connectSSE_def connect_try_streaming [OF resp])
qed

lemma connectSSE_runs_out:
  assumes tx: "fst (decode_all dec d0 cs) = unlines ls @ tail"
    and ls: "list_all (\<lambda>l. nl \<notin> set l \<and> \<not> stops parse l) ls"
    and tail: "nl \<notin> set tail"
    and resp: "ok resp" "body resp = Some (map Chunk cs)"
  shows "connectSSE parse P captured dec d0 (FetchResolved resp) h =
           (emit_all (parsed_frames parse ls) (setIsConnected True h), Some (getReader []))"
  using read_loop_runs_out [OF tx ls tail, of P "setIsConnected True h" "[]"] resp
  by (simp add: connectSSE_def connect_try_streaming read_loop_done)

lemma connectSSE_rejected:
  assumes tx: "fst (decode_all dec d0 cs) = unlines ls @ tail"
    and ls: "list_all (\<lambda>l. nl \<notin> set l \<and> \<not> stops parse l) ls"
    and tail: "nl \<notin> set tail"
    and resp: "ok resp" "body resp = Some (map Chunk cs @ Rejected e # rest)"
  shows "connectSSE parse P captured dec d0 (FetchResolved resp) h =
           (connect_catch P captured e
              (emit_all (parsed_frames parse ls) (setIsConnected True h)),
            Some (getReader rest))"
  using read_loop_runs_out [OF tx ls tail, of P "setIsConnected True h" "Rejected e # rest"] resp
  by (simp add: connectSSE_def connect_try_streaming read_loop_Rejected)

lemma decode_all_append:
  "decode_all dec d (xs @ ys) =
     (case decode_all dec d xs of (t, d1) \<Rightarrow>
        case decode_all dec d1 ys of (t2, d2) \<Rightarrow> (t @ t2, d2))"
  by (induction xs arbitrary: d) (auto split: prod.splits)

lemma read_loop_stops_at:
  assumes before: "fst (decode_all dec d cs) = unlines ls1 @ part" "nl \<notin> set part"
    and whole: "fst (decode_all dec d (cs @ [c])) = unlines (ls1 @ ls2 @ [l]) @ extra"
    and ls: "list_all (\<lambda>l. nl \<notin> set l \<and> \<not> stops parse l) (ls1 @ ls2)"
    and l: "nl \<notin> set l" "stops parse l"
  shows "read_loop parse P dec d [] h (getReader (map Chunk cs @ Chunk c # rest)) =
     (None,
      fst (snd (handle_line parse P l
        (emit_all (parsed_frames parse (ls1 @ ls2)) h, getReader rest))),
      reader_cancel (getReader rest))"
proof -
  let ?h1 = "emit_all (parsed_frames parse ls1) h"
  let ?h2 = "emit_all (parsed_frames parse (ls1 @ ls2)) h"
  have ls1: "list_all (\<lambda>l. nl \<notin> set l \<and> \<not> stops parse l) ls1"
    and ls2a: "list_all (\<lambda>l. nl \<notin> set l) ls2"
    and ls2b: "list_all (\<lambda>l. \<not> stops parse l) ls2"
    using ls by (simp_all add: list_all_iff)
  have h2: "?h2 = emit_all (parsed_frames parse ls2) ?h1"
    by (simp add: parsed_frames_append emit_all_append)
  obtain t d1 where dc: "decode_all dec d cs = (t, d1)" by (metis prod.exhaust)
  obtain t2 d2 where d2: "dec d1 c = (t2, d2)" by (metis prod.exhaust)
  have t: "t = unlines ls1 @ part"
    using before(1) dc by simp
  have "t @ t2 = unlines ls1 @ unlines ls2 @ l @ [nl] @ extra"
    using whole dc d2 by (simp add: decode_all_append unlines_append unlines_single)
  then have pt: "part @ t2 = unlines ls2 @ l @ nl # extra"
    by (simp add: t)
  have sp: "split_nl (part @ t2) = ls2 @ l # split_nl extra"
    using split_nl_unlines [OF ls2a, of "l @ nl # extra"] split_nl_line [OF l(1), of extra]
    by (simp add: pt)
  have bl: "butlast (split_nl (part @ t2)) = ls2 @ l # butlast (split_nl extra)"
    using split_nl_nonempty [of extra] by (simp add: sp butlast_append)
  obtain f h3 r3 where hl: "handle_line parse P l (?h2, getReader rest) = (f, h3, r3)"
    by (metis prod_cases3)
  have f: "f = Break"
    using handle_line_flow [of parse P l ?h2 "getReader rest"] hl l(2) by simp
  then have r3: "r3 = reader_cancel (getReader rest)"
    using handle_line_reader [OF hl] by auto
  have fl: "for_lines parse P (butlast (split_nl (part @ t2))) (?h1, getReader rest) = (h3, r3)"
    by (simp only: bl for_lines_stop [OF ls2b l(2)] h2 [symmetric] hl snd_conv)
  have "read_loop parse P dec d [] h (getReader (map Chunk cs @ Chunk c # rest)) =
      read_loop parse P dec d1 part ?h1 (getReader (Chunk c # rest))"
    using read_loop_runs_out [OF before(1) ls1 before(2), of P h "Chunk c # rest"] dc by simp
  also have "\<dots> = read_loop parse P dec d2 (last (split_nl (part @ t2))) h3 r3"
    by (simp add: read_loop_Chunk d2 fl)
  also have "\<dots> = (None, h3, r3)"
    by (rule read_loop_cancelled) (simp add: r3 reader_cancel_def)
  finally show ?thesis
    using hl r3 by simp
qed

lemma connectSSE_stops_at:
  assumes before: "fst (decode_all dec d0 cs) = unlines ls1 @ part" "nl \<notin> set part"
    and whole: "fst (decode_all dec d0 (cs @ [c])) = unlines (ls1 @ ls2 @ [l]) @ extra"
    and ls: "list_all (\<lambda>l. nl \<notin> set l \<and> \<not> stops parse l) (ls1 @ ls2)"
    and l: "nl \<notin> set l" "stops parse l"
    and resp: "ok resp" "body resp = Some (map Chunk cs @ Chunk c # rest)"
  shows "connectSSE parse P captured dec d0 (FetchResolved resp) h =
     (fst (snd (handle_line parse P l
        (emit_all (parsed_frames parse (ls1 @ ls2)) (setIsConnected True h), getReader rest))),
      Some (reader_cancel (getReader rest)))"
  using read_loop_stops_at [OF before whole ls l, of P "setIsConnected True h" rest]
  by (simp add: connectSSE_def connect_try_streaming [OF resp])

lemma useSSE_effect_enabled:
  "enabled P \<Longrightarrow> url \<noteq> [] \<Longrightarrow>
   useSSE_effect parse url P dec d0 fr h = connectSSE parse P (isComplete h) dec d0 fr (reset h)"
  by (simp add: useSSE_effect_def reset_def Let_def)

lemma reset_fields:
  "calls (reset h) =
     calls h @ [SetData JNull, SetIsComplete False, SetError JNull, SetIsConnected False]"
  "isComplete (reset h) = False"
  "error (reset h) = JNull"
  by (simp_all add: reset_def setData_def setIsComplete_def setError_def setIsConnected_def)

section \<open>What a log can hold\<close>

text \<open>
  Every step of the reader extends the state of the hook, so the state after a whole
  connection extends the state before it. An error leaves the read loop only when a read
  was rejected.
\<close>

lemma extends_refl: "extends P h h"
  by (simp add: extends_def justified_def)

lemma justified_append: "justified P xs \<Longrightarrow> justified P ys \<Longrightarrow> justified P (xs @ ys)"
  unfolding justified_def by (simp only: set_append Un_iff) blast

lemma extends_trans:
  assumes "extends P h1 h2" and "extends P h2 h3"
  shows "extends P h1 h3"
proof -
  obtain xs where xs: "calls h2 = calls h1 @ xs" "justified P xs"
    "isComplete h2 \<longrightarrow> isComplete h1 \<or>
       (\<exists>u. SetData u \<in> set xs \<and> member u ''type'' = Some (JStr ''complete''))"
    using assms(1) unfolding extends_def by blast
  obtain ys where ys: "calls h3 = calls h2 @ ys" "justified P ys"
    "isComplete h3 \<longrightarrow> isComplete h2 \<or>
       (\<exists>u. SetData u \<in> set ys \<and> member u ''type'' = Some (JStr ''complete''))"
    using assms(2) unfolding extends_def by blast
  have "calls h3 = calls h1 @ (xs @ ys)"
    using xs(1) ys(1) by simp
  moreover have "justified P (xs @ ys)"
    using xs(2) ys(2) by (rule justified_append)
  moreover have "isComplete h3 \<longrightarrow> isComplete h1 \<or>
       (\<exists>u. SetData u \<in> set (xs @ ys) \<and> member u ''type'' = Some (JStr ''complete''))"
    using xs(3) ys(3) by auto
  ultimately show ?thesis
    unfolding extends_def by blast
qed

lemma handle_line_extends: "extends P h (fst (snd (handle_line parse P line (h, r))))"
proof (cases "startsWith line ''data: ''")
  case False
  then show ?thesis by (simp add: handle_line_def extends_refl)
next
  case True
  show ?thesis
  proof (cases "parse (slice line 6)")
    case None
    then show ?thesis
      using True
      by (simp add: handle_line_def parse_failed_def extends_def justified_def setError_def
          logged_def)
  next
    case (Some u)
    show ?thesis
    proof (cases u)
      case JNull
      then show ?thesis
        using True Some
        by (simp add: handle_line_def parse_failed_def extends_def justified_def setError_def
            logged_def setData_def)
    next
      case (JObj kvs)
      then show ?thesis
        using True Some
        by (cases "map_of kvs ''result''")
          (auto simp: handle_line_def extends_def justified_def setError_def
            logged_def setData_def setIsComplete_def Let_def)
    qed (use True Some in \<open>simp_all add: handle_line_def extends_def justified_def setData_def\<close>)
  qed
qed

lemma for_lines_extends: "extends P h (fst (for_lines parse P lines (h, r)))"
proof (induction lines arbitrary: h r)
  case Nil
  show ?case by (simp add: extends_refl)
next
  case (Cons line lines)
  obtain f h1 r1 where hl: "handle_line parse P line (h, r) = (f, h1, r1)"
    by (metis prod_cases3)
  have e1: "extends P h h1"
    using handle_line_extends [of P h parse line r] hl by simp
  show ?case
  proof (cases f)
    case Continue
    then show ?thesis
      using hl e1 Cons.IH [of h1 r1] by (auto intro: extends_trans)
  next
    case Break
    then show ?thesis using hl e1 by simp
  qed
qed

lemma read_loop_getReader_extends:
  "extends P h (fst (snd (read_loop parse P dec d buffer h (getReader src))))"
proof (induction src arbitrary: d buffer h)
  case Nil
  show ?case by (simp add: read_loop_done extends_refl)
next
  case (Cons x src)
  show ?case
  proof (cases x)
    case (Rejected e)
    then show ?thesis by (simp add: read_loop_Rejected extends_refl)
  next
    case (Chunk c)
    obtain t d1 where d1: "dec d c = (t, d1)" by (metis prod.exhaust)
    obtain h1 r2 where fl:
      "for_lines parse P (butlast (split_nl (buffer @ t))) (h, getReader src) = (h1, r2)"
      by (metis prod.exhaust)
    have e1: "extends P h h1"
      using for_lines_extends [of P h parse "butlast (split_nl (buffer @ t))" "getReader src"] fl
      by simp
    have step: "read_loop parse P dec d buffer h (getReader (x # src)) =
        read_loop parse P dec d1 (last (split_nl (buffer @ t))) h1 r2"
      by (simp add: Chunk read_loop_Chunk d1 fl)
    from for_lines_reader [OF fl] show ?thesis
    proof
      assume "r2 = getReader src"
      then show ?thesis
        using step e1 Cons.IH [where d = d1 and buffer = "last (split_nl (buffer @ t))" and h = h1]
        by (auto intro: extends_trans)
    next
      assume "r2 = reader_cancel (getReader src)"
      then have "cancelled r2" by (simp add: reader_cancel_def)
      then show ?thesis
        using step e1 by (simp add: read_loop_cancelled)
    qed
  qed
qed

lemma read_loop_error_source:
  "fst (read_loop parse P dec d buffer h (getReader src)) = Some e \<Longrightarrow> Rejected e \<in> set src"
proof (induction src arbitrary: d buffer h)
  case Nil
  then show ?case by (simp add: read_loop_done)
next
  case (Cons x src)
  show ?case
  proof (cases x)
    case (Rejected e')
    then show ?thesis using Cons.prems by (simp add: read_loop_Rejected)
  next
    case (Chunk c)
    obtain t d1 where d1: "dec d c = (t, d1)" by (metis prod.exhaust)
    obtain h1 r2 where fl:
      "for_lines parse P (butlast (split_nl (buffer @ t))) (h, getReader src) = (h1, r2)"
      by (metis prod.exhaust)
    have step: "read_loop parse P dec d buffer h (getReader (x # src)) =
        read_loop parse P dec d1 (last (split_nl (buffer @ t))) h1 r2"
      by (simp add: Chunk read_loop_Chunk d1 fl)
    from for_lines_reader [OF fl] show ?thesis
    proof
      assume "r2 = getReader src"
      then show ?thesis
        using step Cons.prems Cons.IH [where d = d1 and buffer = "last (split_nl (buffer @ t))" and h = h1] by simp
    next
      assume "r2 = reader_cancel (getReader src)"
      then have "cancelled r2" by (simp add: reader_cancel_def)
      then show ?thesis
        using step Cons.prems by (simp add: read_loop_cancelled)
    qed
  qed
qed

lemma connect_try_error_cause:
  assumes "fst (connect_try parse P dec d0 fr h) = Some err"
  shows "(\<exists>e. fr = FetchRejected e) \<or>
     (\<exists>resp. fr = FetchResolved resp \<and>
        (\<not> ok resp \<or> body resp = None \<or>
         (\<exists>e src. body resp = Some src \<and> Rejected e \<in> set src)))"
proof (cases fr)
  case (FetchRejected e)
  then show ?thesis by simp
next
  case (FetchResolved resp)
  show ?thesis
  proof (cases "ok resp")
    case False
    then show ?thesis using FetchResolved by simp
  next
    case True
    show ?thesis
    proof (cases "body resp")
      case None
      then show ?thesis using FetchResolved by simp
    next
      case (Some src)
      have "fst (read_loop parse P dec d0 [] (setIsConnected True h) (getReader src)) = Some err"
        using assms FetchResolved
        by (simp add: connect_try_streaming [OF True Some] split: prod.splits)
      then have "Rejected err \<in> set src"
        by (rule read_loop_error_source)
      then show ?thesis using FetchResolved Some by auto
    qed
  qed
qed

lemma setIsConnected_extends: "extends P h (setIsConnected b h)"
  by (simp add: extends_def justified_def setIsConnected_def)

lemma connect_try_extends: "extends P h (fst (snd (connect_try parse P dec d0 fr h)))"
proof (cases fr)
  case (FetchRejected e)
  then show ?thesis by (simp add: connect_try_def extends_refl)
next
  case (FetchResolved resp)
  show ?thesis
  proof (cases "ok resp")
    case False
    then show ?thesis using FetchResolved by (simp add: connect_try_def extends_refl)
  next
    case True
    show ?thesis
    proof (cases "body resp")
      case None
      then show ?thesis
        using FetchResolved True by (simp add: connect_try_def setIsConnected_extends)
    next
      case (Some src)
      have "extends P (setIsConnected True h)
          (fst (snd (read_loop parse P dec d0 [] (setIsConnected True h) (getReader src))))"
        by (rule read_loop_getReader_extends)
      then have "extends P h
          (fst (snd (read_loop parse P dec d0 [] (setIsConnected True h) (getReader src))))"
        using setIsConnected_extends extends_trans by blast
      then show ?thesis
        using FetchResolved
        by (auto simp: connect_try_streaming [OF True Some] split: prod.splits)
    qed
  qed
qed

lemma connect_catch_log:
  "\<exists>cs. calls (connect_catch P captured err h) = calls h @ cs \<and>
        isComplete (connect_catch P captured err h) = isComplete h \<and>
        (\<forall>u. SetData u \<notin> set cs) \<and> (\<forall>v. OnComplete v \<notin> set cs)"
  by (simp add: connect_catch_def setError_def setIsConnected_def logged_def Let_def)

lemma connectSSE_log:
  "\<exists>es cs. calls (fst (connectSSE parse P captured dec d0 fr h)) = calls h @ es @ cs \<and>
      justified P es \<and>
      (isComplete (fst (connectSSE parse P captured dec d0 fr h)) \<longrightarrow>
         isComplete h \<or>
         (\<exists>u. SetData u \<in> set es \<and> member u ''type'' = Some (JStr ''complete''))) \<and>
      (\<forall>u. SetData u \<notin> set cs) \<and> (\<forall>v. OnComplete v \<notin> set cs) \<and>
      (cs = [] \<or> (\<exists>err. fst (connect_try parse P dec d0 fr h) = Some err))"
proof -
  obtain e h1 ro where ct: "connect_try parse P dec d0 fr h = (e, h1, ro)"
    by (metis prod_cases3)
  obtain es where es: "calls h1 = calls h @ es" "justified P es"
    "isComplete h1 \<longrightarrow> isComplete h \<or>
       (\<exists>u. SetData u \<in> set es \<and> member u ''type'' = Some (JStr ''complete''))"
    using connect_try_extends [of P h parse dec d0 fr] ct unfolding extends_def by auto
  show ?thesis
  proof (cases e)
    case None
    then have "fst (connectSSE parse P captured dec d0 fr h) = h1"
      using ct by (simp add: connectSSE_def)
    then show ?thesis
      using es by (intro exI [of _ es] exI [of _ "[]"]) simp
  next
    case (Some err)
    then have fin: "fst (connectSSE parse P captured dec d0 fr h) = connect_catch P captured err h1"
      using ct by (simp add: connectSSE_def)
    obtain cs where cs: "calls (connect_catch P captured err h1) = calls h1 @ cs"
      "isComplete (connect_catch P captured err h1) = isComplete h1"
      "\<forall>u. SetData u \<notin> set cs" "\<forall>v. OnComplete v \<notin> set cs"
      using connect_catch_log [of P captured err h1] by blast
    show ?thesis
      using es cs Some ct
      by (intro exI [of _ es] exI [of _ cs]) (simp add: fin)
  qed
qed

section \<open>The claims\<close>

text \<open>
  C1. Let the chunks of the body decode, taken together, to the text of zero or more
  progress frames followed by one terminal frame (\<open>complete\<close> or \<open>error\<close>), each a
  line \<open>data: \<close> plus its JSON payload plus a line feed. However the text is cut into
  chunks, the frames that the reader passes to \<open>setData\<close> are the progress frames in
  their order and then the terminal frame, each once. Nothing is emitted after the
  terminal frame, whatever text (\<open>extra\<close>) or reads (\<open>rest\<close>) follow it.
\<close>

theorem frames_emitted_in_order:
  assumes progress: "list_all2 (\<lambda>p u. nl \<notin> set p \<and> parse p = Some u \<and>
             member u ''type'' = Some (JStr ''progress'')) ps us"
    and terminal: "nl \<notin> set t" "parse t = Some ut"
      "member ut ''type'' = Some (JStr ''complete'') \<or> member ut ''type'' = Some (JStr ''error'')"
    and tx: "fst (decode_all dec d0 cs) = unlines (map data_line (ps @ [t])) @ extra"
    and resp: "ok resp" "body resp = Some (map Chunk cs @ rest)"
  shows "emitted (calls (fst (connectSSE parse P captured dec d0 (FetchResolved resp) h))) =
           emitted (calls h) @ us @ [ut]"
proof -
  let ?ls = "map data_line ps"
  let ?h1 = "setIsConnected True h"
  have ls: "list_all (\<lambda>l. nl \<notin> set l \<and> \<not> stops parse l) ?ls"
    and fr: "parsed_frames parse ?ls = us"
    using progress_lines [OF progress] by simp_all
  have st: "stops parse (data_line t)"
    using terminal(2,3) stops_data_line(2,3) by blast
  have n: "nl \<notin> set (data_line t)"
    using terminal(1) by (simp add: data_line_simps)
  have tx': "fst (decode_all dec d0 cs) = unlines (?ls @ [data_line t]) @ extra"
    using tx by simp
  have run: "fst (connectSSE parse P captured dec d0 (FetchResolved resp) h) =
      fst (snd (handle_line parse P (data_line t) (emit_all us ?h1, getReader rest)))"
    using connectSSE_stops [OF tx' ls n st resp, of P captured h] fr by auto
  have em: "emitted (calls (fst (snd (handle_line parse P (data_line t)
      (emit_all us ?h1, getReader rest))))) = emitted (calls h) @ us @ [ut]"
    using terminal(3)
  proof
    assume c: "member ut ''type'' = Some (JStr ''complete'')"
    show ?thesis
      by (simp add: handle_line_complete [of parse t ut, OF terminal(2) c] emit_all_fields
          emitted_append emitted_SetData setIsConnected_def setIsComplete_def setData_def
          logged_def)
  next
    assume e: "member ut ''type'' = Some (JStr ''error'')"
    show ?thesis
      by (simp add: handle_line_error [of parse t ut, OF terminal(2) e] emit_all_fields
          emitted_append emitted_SetData setIsConnected_def setError_def setData_def
          logged_def)
  qed
  show ?thesis
    by (simp only: run em)
qed

theorem frames_emitted_in_order_witness:
  \<open>emitted (calls (fst (connectSSE demo_parse demo_options False decode_text ()
      (FetchResolved (ok_response
         [Chunk ''data: {"typ'',
          Chunk (''e":"progress","message":"starting","progress":0}'' @ [nl] @ ''data: {"type":"comp''),
          Chunk (''lete","result":{"drug":"warfarin"}}'' @ [nl])]))
      initial_hook))) = [progress_value, complete_value]\<close>
  using frames_emitted_in_order [of demo_parse "[progress_json]" "[progress_value]"
      complete_json complete_value decode_text "()"
      \<open>[''data: {"typ'',
        ''e":"progress","message":"starting","progress":0}'' @ [nl] @ ''data: {"type":"comp'',
        ''lete","result":{"drug":"warfarin"}}'' @ [nl]]\<close> "[]"
      \<open>ok_response
         [Chunk ''data: {"typ'',
          Chunk (''e":"progress","message":"starting","progress":0}'' @ [nl] @ ''data: {"type":"comp''),
          Chunk (''lete","result":{"drug":"warfarin"}}'' @ [nl])]\<close> "[]"
      demo_options False initial_hook]
  by (simp add: demo_defs decode_text_def ok_response_def ok_def unlines_def data_line_def
      nl_def initial_hook_def)







text \<open>
  C4. The caller aborts while the reader waits for a chunk: the pending \<open>read()\<close> rejects
  with an \<open>AbortError\<close>. If the chunks before it decode to progress frames, and
  perhaps the beginning \<open>tail\<close> of a further line, then the log of the connection holds the
  connection flag and these frames and nothing else: no frame, no error and no callback
  follows the abort, and the reads after it stay in the source.
\<close>

theorem abort_is_silent:
  assumes abort: "err_name e = ''AbortError''"
    and progress: "list_all2 (\<lambda>p u. nl \<notin> set p \<and> parse p = Some u \<and>
             member u ''type'' = Some (JStr ''progress'')) ps us"
    and tx: "fst (decode_all dec d0 cs) = unlines (map data_line ps) @ tail"
    and tail: "nl \<notin> set tail"
    and resp: "ok resp" "body resp = Some (map Chunk cs @ Rejected e # rest)"
  shows "connectSSE parse P captured dec d0 (FetchResolved resp) h =
           (emit_all us (setIsConnected True h), Some (getReader rest))
         \<and> calls (emit_all us (setIsConnected True h)) =
             calls h @ SetIsConnected True # map SetData us"
proof -
  have ls: "list_all (\<lambda>l. nl \<notin> set l \<and> \<not> stops parse l) (map data_line ps)"
    and fr: "parsed_frames parse (map data_line ps) = us"
    using progress_lines [OF progress] by simp_all
  show ?thesis
    using connectSSE_rejected [OF tx ls tail resp, of P captured h] abort
    by (simp add: fr connect_catch_def emit_all_fields setIsConnected_def)
qed

theorem abort_is_silent_witness:
  "connectSSE demo_parse demo_options False decode_text ()
      (FetchResolved (ok_response
         [Chunk (data_line progress_json @ [nl] @ complete_head),
          Rejected abort_error,
          Chunk (complete_tail @ [nl])]))
      initial_hook =
     (emit_all [progress_value] (setIsConnected True initial_hook),
      Some (getReader [Chunk (complete_tail @ [nl])]))
   \<and> calls (emit_all [progress_value] (setIsConnected True initial_hook)) =
       [SetIsConnected True, SetData progress_value]"
  using abort_is_silent [of abort_error demo_parse "[progress_json]" "[progress_value]"
      decode_text "()" "[data_line progress_json @ [nl] @ complete_head]"
      "complete_head"
      "ok_response
         [Chunk (data_line progress_json @ [nl] @ complete_head),
          Rejected abort_error,
          Chunk (complete_tail @ [nl])]"
      "[Chunk (complete_tail @ [nl])]"
      demo_options False initial_hook]
  by (simp add: demo_defs decode_text_def ok_response_def ok_def unlines_def data_line_def
      nl_def initial_hook_def abort_error_def)

text \<open>
  A rejection that is not an abort takes the other branch of the outer \<open>catch\<close>, on the
  same stream: it is reported.
\<close>

lemma other_rejection_is_reported:
  assumes other: "err_name e \<noteq> ''AbortError''" "err_message e \<noteq> []"
    and progress: "list_all2 (\<lambda>p u. nl \<notin> set p \<and> parse p = Some u \<and>
             member u ''type'' = Some (JStr ''progress'')) ps us"
    and tx: "fst (decode_all dec d0 cs) = unlines (map data_line ps) @ tail"
    and tail: "nl \<notin> set tail"
    and resp: "ok resp" "body resp = Some (map Chunk cs @ Rejected e # rest)"
  shows "calls (fst (connectSSE parse P captured dec d0 (FetchResolved resp) h)) =
           calls h @ SetIsConnected True # map SetData us @
           [ConsoleError ''SSE connection error:'', SetError (JStr (err_message e)),
            SetIsConnected False] @
           (if has_onError P \<and> \<not> captured then [OnError (JStr (err_message e))] else [])"
proof -
  have ls: "list_all (\<lambda>l. nl \<notin> set l \<and> \<not> stops parse l) (map data_line ps)"
    and fr: "parsed_frames parse (map data_line ps) = us"
    using progress_lines [OF progress] by simp_all
  show ?thesis
    using connectSSE_rejected [OF tx ls tail resp, of P captured h] other
    by (simp add: fr connect_catch_def emit_all_fields setIsConnected_def setError_def
        logged_def Let_def)
qed

text \<open>
  C5. In a session of the effect the completed state is reached only with an emitted frame
  of the type \<open>complete\<close>: whatever \<open>fetch\<close> and the reads settle to, when
  \<open>isComplete\<close> is true at the end, the session's part of the log holds such a frame.
  And when such a frame is reached (no completed line before it stops the reader), the
  reader sets \<open>isComplete\<close>, cancels the read and takes nothing more from the source.
  Here \<open>c\<close> is the chunk that completes the frame's line: the chunks before it complete
  the lines \<open>ls1\<close> and leave the piece \<open>part\<close>, and \<open>c\<close> may complete any further lines
  \<open>ls2\<close> before the frame's. The reads \<open>rest\<close> after \<open>c\<close> are still pending in the
  cancelled reader.
\<close>

theorem complete_only_by_frame:
  "(enabled P \<and> url \<noteq> [] \<and> isComplete (fst (useSSE_effect parse url P dec d0 fr h)) \<longrightarrow>
      (\<exists>es u. calls (fst (useSSE_effect parse url P dec d0 fr h)) = calls h @ es \<and>
         SetData u \<in> set es \<and> member u ''type'' = Some (JStr ''complete'')))
   \<and>
   (enabled P \<and> url \<noteq> [] \<and>
    list_all (\<lambda>l. nl \<notin> set l \<and> \<not> stops parse l) (ls1 @ ls2) \<and>
    nl \<notin> set p \<and> parse p = Some u \<and> member u ''type'' = Some (JStr ''complete'') \<and>
    fst (decode_all dec d0 cs) = unlines ls1 @ part \<and> nl \<notin> set part \<and>
    fst (decode_all dec d0 (cs @ [c])) = unlines (ls1 @ ls2 @ [data_line p]) @ extra \<and>
    ok resp \<and> body resp = Some (map Chunk cs @ Chunk c # rest) \<longrightarrow>
      (\<exists>h'. useSSE_effect parse url P dec d0 (FetchResolved resp) h =
              (h', Some \<lparr>pending = rest, cancelled = True\<rparr>) \<and>
            isComplete h' \<and>
            calls h' =
              calls h @
              [SetData JNull, SetIsComplete False, SetError JNull, SetIsConnected False,
               SetIsConnected True] @
              map SetData (parsed_frames parse (ls1 @ ls2)) @
              [SetData u, SetIsComplete True] @
              (if has_onComplete P \<and> truthy (member u ''result'')
               then [OnComplete (js_or (member u ''result'') JNull)] else [])))"
proof (intro conjI impI)
  assume a: "enabled P \<and> url \<noteq> [] \<and> isComplete (fst (useSSE_effect parse url P dec d0 fr h))"
  then have eff: "useSSE_effect parse url P dec d0 fr h =
      connectSSE parse P (isComplete h) dec d0 fr (reset h)"
    by (simp add: useSSE_effect_enabled)
  obtain es cs where log:
    "calls (fst (connectSSE parse P (isComplete h) dec d0 fr (reset h))) =
       calls (reset h) @ es @ cs"
    "isComplete (fst (connectSSE parse P (isComplete h) dec d0 fr (reset h))) \<longrightarrow>
       isComplete (reset h) \<or>
       (\<exists>u. SetData u \<in> set es \<and> member u ''type'' = Some (JStr ''complete''))"
    using connectSSE_log [of parse P "isComplete h" dec d0 fr "reset h"] by blast
  from a eff log(2) obtain u where u: "SetData u \<in> set es"
    "member u ''type'' = Some (JStr ''complete'')"
    by (auto simp: reset_fields)
  let ?new = "[SetData JNull, SetIsComplete False, SetError JNull, SetIsConnected False] @ es @ cs"
  have "calls (fst (useSSE_effect parse url P dec d0 fr h)) = calls h @ ?new"
    using eff log(1) by (simp add: reset_fields)
  moreover have "SetData u \<in> set ?new"
    using u(1) by simp
  ultimately show "\<exists>es u. calls (fst (useSSE_effect parse url P dec d0 fr h)) = calls h @ es \<and>
      SetData u \<in> set es \<and> member u ''type'' = Some (JStr ''complete'')"
    using u(2) by blast
next
  assume b: "enabled P \<and> url \<noteq> [] \<and>
    list_all (\<lambda>l. nl \<notin> set l \<and> \<not> stops parse l) (ls1 @ ls2) \<and>
    nl \<notin> set p \<and> parse p = Some u \<and> member u ''type'' = Some (JStr ''complete'') \<and>
    fst (decode_all dec d0 cs) = unlines ls1 @ part \<and> nl \<notin> set part \<and>
    fst (decode_all dec d0 (cs @ [c])) = unlines (ls1 @ ls2 @ [data_line p]) @ extra \<and>
    ok resp \<and> body resp = Some (map Chunk cs @ Chunk c # rest)"
  then have eff: "useSSE_effect parse url P dec d0 (FetchResolved resp) h =
      connectSSE parse P (isComplete h) dec d0 (FetchResolved resp) (reset h)"
    by (simp add: useSSE_effect_enabled)
  from b have ls: "list_all (\<lambda>l. nl \<notin> set l \<and> \<not> stops parse l) (ls1 @ ls2)"
    and pu: "parse p = Some u" and ty: "member u ''type'' = Some (JStr ''complete'')"
    and before: "fst (decode_all dec d0 cs) = unlines ls1 @ part" "nl \<notin> set part"
    and whole: "fst (decode_all dec d0 (cs @ [c])) = unlines (ls1 @ ls2 @ [data_line p]) @ extra"
    and resp: "ok resp" "body resp = Some (map Chunk cs @ Chunk c # rest)"
    by simp_all
  have n: "nl \<notin> set (data_line p)"
    using b by (simp add: data_line_simps)
  have st: "stops parse (data_line p)"
    using pu ty by (rule stops_data_line(2))
  show "\<exists>h'. useSSE_effect parse url P dec d0 (FetchResolved resp) h =
              (h', Some \<lparr>pending = rest, cancelled = True\<rparr>) \<and>
            isComplete h' \<and>
            calls h' =
              calls h @
              [SetData JNull, SetIsComplete False, SetError JNull, SetIsConnected False,
               SetIsConnected True] @
              map SetData (parsed_frames parse (ls1 @ ls2)) @
              [SetData u, SetIsComplete True] @
              (if has_onComplete P \<and> truthy (member u ''result'')
               then [OnComplete (js_or (member u ''result'') JNull)] else [])"
    by (simp add: eff connectSSE_stops_at [OF before whole ls n st resp]
        handle_line_complete [of parse p u, OF pu ty] emit_all_fields reset_fields
        setIsConnected_def setIsComplete_def setData_def logged_def reader_cancel_def
        getReader_def)
qed

theorem complete_only_by_frame_witness:
  "(\<exists>es u. calls (fst (useSSE_effect demo_parse demo_url demo_options decode_text ()
        (FetchResolved (ok_response
           [Chunk (data_line progress_json @ [nl] @ ''data: ''),
            Chunk (heartbeat_json @ [nl] @ data_line complete_json @ [nl] @
                   data_line progress_json @ [nl]),
            Chunk (data_line progress_json @ [nl])]))
        initial_hook)) = calls initial_hook @ es \<and>
      SetData u \<in> set es \<and> member u ''type'' = Some (JStr ''complete''))
   \<and>
   (\<exists>h'. useSSE_effect demo_parse demo_url demo_options decode_text ()
        (FetchResolved (ok_response
           [Chunk (data_line progress_json @ [nl] @ ''data: ''),
            Chunk (heartbeat_json @ [nl] @ data_line complete_json @ [nl] @
                   data_line progress_json @ [nl]),
            Chunk (data_line progress_json @ [nl])]))
        initial_hook =
        (h', Some \<lparr>pending = [Chunk (data_line progress_json @ [nl])], cancelled = True\<rparr>) \<and>
      isComplete h' \<and>
      calls h' =
        [SetData JNull, SetIsComplete False, SetError JNull, SetIsConnected False,
         SetIsConnected True, SetData progress_value, SetData heartbeat_value,
         SetData complete_value, SetIsComplete True,
         OnComplete (JObj [(''drug'', JStr ''warfarin'')])])"
proof -
  have run: "isComplete (fst (useSSE_effect demo_parse demo_url demo_options decode_text ()
        (FetchResolved (ok_response
           [Chunk (data_line progress_json @ [nl] @ ''data: ''),
            Chunk (heartbeat_json @ [nl] @ data_line complete_json @ [nl] @
                   data_line progress_json @ [nl]),
            Chunk (data_line progress_json @ [nl])]))
        initial_hook))"
    by code_simp
  show ?thesis
    using run complete_only_by_frame [of demo_options demo_url demo_parse decode_text "()"
        "FetchResolved (ok_response
           [Chunk (data_line progress_json @ [nl] @ ''data: ''),
            Chunk (heartbeat_json @ [nl] @ data_line complete_json @ [nl] @
                   data_line progress_json @ [nl]),
            Chunk (data_line progress_json @ [nl])])"
        initial_hook "[data_line progress_json]" "[data_line heartbeat_json]"
        complete_json complete_value
        "[data_line progress_json @ [nl] @ ''data: '']" "''data: ''"
        "heartbeat_json @ [nl] @ data_line complete_json @ [nl] @ data_line progress_json @ [nl]"
        "data_line progress_json @ [nl]"
        "ok_response
           [Chunk (data_line progress_json @ [nl] @ ''data: ''),
            Chunk (heartbeat_json @ [nl] @ data_line complete_json @ [nl] @
                   data_line progress_json @ [nl]),
            Chunk (data_line progress_json @ [nl])]"
        "[Chunk (data_line progress_json @ [nl])]"]
    by (simp add: demo_defs decode_text_def ok_response_def ok_def unlines_def data_line_def
      nl_def initial_hook_def stops_def startsWith_def slice_def parsed_frames_def frame_of_def
      map_filter_simps demo_options_def demo_url_def)
qed

text \<open>
  C6. When the response has a status outside 200 to 299, the reader is to report a
  request-failed error that includes the status, call \<open>onError\<close> and emit no frame. In a
  first session the code does all of it. In a session that follows a completed one it
  sets the same error state and emits no frame, but does not call \<open>onError\<close>, which
  was passed: the guard \<open>onError && !isComplete\<close> of the outer \<open>catch\<close> reads the
  \<open>isComplete\<close> of the render that started the effect, still true from the session before,
  although the effect has just reset the state. In the same second session an error frame
  does reach the callback. The theorem runs the code on the three inputs.
\<close>

theorem http_error_after_completed_session:
  "after_completed_session =
     \<lparr>data = complete_value, isConnected = False, isComplete = True, error = JNull,
        calls =
          [SetData JNull, SetIsComplete False, SetError JNull, SetIsConnected False,
           SetIsConnected True, SetData complete_value, SetIsComplete True,
           OnComplete (JObj [(''drug'', JStr ''warfarin'')]), SetIsConnected False]\<rparr>
   \<and> has_onError demo_options
   \<and> useSSE_effect demo_parse demo_url demo_options decode_text ()
         (FetchResolved server_error) after_completed_session =
       (\<lparr>data = JNull, isConnected = False, isComplete = False,
          error = JStr ''HTTP 500: Internal Server Error'',
          calls =
            calls after_completed_session @
            [SetData JNull, SetIsComplete False, SetError JNull, SetIsConnected False,
             ConsoleError ''SSE connection error:'',
             SetError (JStr ''HTTP 500: Internal Server Error''),
             SetIsConnected False]\<rparr>,
        None)
   \<and> useSSE_effect demo_parse demo_url demo_options decode_text ()
         (FetchResolved server_error) initial_hook =
       (\<lparr>data = JNull, isConnected = False, isComplete = False,
          error = JStr ''HTTP 500: Internal Server Error'',
          calls =
            [SetData JNull, SetIsComplete False, SetError JNull, SetIsConnected False,
             ConsoleError ''SSE connection error:'',
             SetError (JStr ''HTTP 500: Internal Server Error''),
             SetIsConnected False,
             OnError (JStr ''HTTP 500: Internal Server Error'')]\<rparr>,
        None)
   \<and> useSSE_effect demo_parse demo_url demo_options decode_text ()
         (FetchResolved (ok_response [Chunk (data_line error_json @ [nl])]))
         after_completed_session =
       (\<lparr>data = error_value, isConnected = True, isComplete = False,
          error = JStr ''DrugBank unavailable'',
          calls =
            calls after_completed_session @
            [SetData JNull, SetIsComplete False, SetError JNull, SetIsConnected False,
             SetIsConnected True, SetData error_value,
             SetError (JStr ''DrugBank unavailable''),
             OnError (JStr ''DrugBank unavailable'')]\<rparr>,
        Some \<lparr>pending = [], cancelled = True\<rparr>)"
  by code_simp

text \<open>
  What the outer \<open>catch\<close> does with such a response in general: the error state and the
  log, with the guard of the callback as the code has it. \<open>captured\<close> is the closure's
  \<open>isComplete\<close>.
\<close>

lemma http_error_log:
  assumes "\<not> ok resp"
  shows "\<exists>h'. connectSSE parse P captured dec d0 (FetchResolved resp) h = (h', None) \<and>
     error h' = JStr (''HTTP '' @ show_nat (status resp) @ '': '' @ statusText resp) \<and>
     error h' \<noteq> JStr ''Failed to parse progress update'' \<and>
     error h' \<noteq> JStr ''Analysis failed'' \<and>
     error h' \<noteq> JStr ''No response body'' \<and>
     error h' \<noteq> JStr ''Connection failed'' \<and>
     emitted (calls h') = emitted (calls h) \<and>
     calls h' =
       calls h @
       [ConsoleError ''SSE connection error:'',
        SetError (JStr (''HTTP '' @ show_nat (status resp) @ '': '' @ statusText resp)),
        SetIsConnected False] @
       (if has_onError P \<and> \<not> captured
        then [OnError (JStr (''HTTP '' @ show_nat (status resp) @ '': '' @ statusText resp))]
        else [])"
  using assms
  by (simp add: connectSSE_def connect_try_def connect_catch_def Error_def setError_def
      setIsConnected_def logged_def emitted_append Let_def)

text \<open>
  C7, as the code has it. When a frame of the type \<open>error\<close> is reached, the reader
  emits it, sets the error state to the frame's message when that is truthy and to the
  default text \<open>Analysis failed\<close> when it is absent or falsy, cancels the read, calls
  \<open>onError\<close> with the same text when the callback was passed, and handles nothing that
  follows. The connection returns: the outer \<open>catch\<close> does not run.
\<close>

theorem error_frame_is_terminal:
  assumes ls: "list_all (\<lambda>l. nl \<notin> set l \<and> \<not> stops parse l) ls"
    and frame: "nl \<notin> set p" "parse p = Some u" "member u ''type'' = Some (JStr ''error'')"
    and tx: "fst (decode_all dec d0 cs) = unlines (ls @ [data_line p]) @ extra"
    and resp: "ok resp" "body resp = Some (map Chunk cs @ rest)"
  shows "\<exists>h' r. connectSSE parse P captured dec d0 (FetchResolved resp) h = (h', Some r)
      \<and> cancelled r
      \<and> error h' = js_or (member u ''message'') (JStr ''Analysis failed'')
      \<and> calls h' = calls h @ SetIsConnected True # map SetData (parsed_frames parse ls) @
           [SetData u, SetError (js_or (member u ''message'') (JStr ''Analysis failed''))] @
           (if has_onError P
            then [OnError (js_or (member u ''message'') (JStr ''Analysis failed''))] else [])"
proof -
  have n: "nl \<notin> set (data_line p)"
    using frame(1) by (simp add: data_line_simps)
  have st: "stops parse (data_line p)"
    using frame(2,3) by (rule stops_data_line(3))
  from connectSSE_stops [OF tx ls n st resp, of P captured h]
  show ?thesis
    by (auto simp: handle_line_error [of parse p u, OF frame(2,3)] emit_all_fields
        setError_def logged_def setIsConnected_def setData_def)
qed

theorem error_frame_is_terminal_witness:
  "\<exists>h' r. connectSSE demo_parse demo_options False decode_text ()
       (FetchResolved (ok_response
          [Chunk (data_line progress_json @ [nl] @ data_line error_json @ [nl] @
                  data_line progress_json @ [nl])]))
       initial_hook = (h', Some r)
      \<and> cancelled r
      \<and> error h' = JStr ''DrugBank unavailable''
      \<and> calls h' =
           [SetIsConnected True, SetData progress_value, SetData error_value,
            SetError (JStr ''DrugBank unavailable''), OnError (JStr ''DrugBank unavailable'')]"
  using error_frame_is_terminal [of demo_parse "[data_line progress_json]" error_json error_value
      decode_text "()"
      "[data_line progress_json @ [nl] @ data_line error_json @ [nl] @
        data_line progress_json @ [nl]]"
      "data_line progress_json @ [nl]"
      "ok_response
          [Chunk (data_line progress_json @ [nl] @ data_line error_json @ [nl] @
                  data_line progress_json @ [nl])]"
      "[]" demo_options False initial_hook]
  by (simp add: demo_defs decode_text_def ok_response_def ok_def unlines_def data_line_def
      nl_def initial_hook_def stops_def startsWith_def slice_def parsed_frames_def frame_of_def
      map_filter_simps demo_options_def)

text \<open>
  The claim gives the default text to an absent message only. A frame whose message is
  the empty string has a message, and the default text is reported in its place.
\<close>

theorem error_frame_counterexample:
  "member empty_error_value ''message'' = Some (JStr [])
   \<and> demo_parse empty_error_json = Some empty_error_value
   \<and> error (fst (connectSSE demo_parse demo_options False decode_text ()
       (FetchResolved (ok_response [Chunk (data_line empty_error_json @ [nl])]))
       initial_hook)) = JStr ''Analysis failed''"
  by code_simp

text \<open>
  C8. Whatever the input, \<open>onComplete\<close> is called only with the truthy \<open>result\<close> of an
  emitted frame of the type \<open>complete\<close> (and only when the callback was passed). And
  when a frame of the type \<open>complete\<close> whose \<open>result\<close> is absent or falsy is reached,
  the reader emits it, sets \<open>isComplete\<close> and cancels the read, and the log of the
  connection holds no call of \<open>onComplete\<close>.
\<close>

theorem onComplete_needs_truthy_result:
  "(\<exists>es. calls (fst (connectSSE parse P captured dec d0 fr h)) = calls h @ es \<and>
      (\<forall>v. OnComplete v \<in> set es \<longrightarrow>
         has_onComplete P \<and>
         (\<exists>u. SetData u \<in> set es \<and> member u ''type'' = Some (JStr ''complete'') \<and>
              member u ''result'' = Some v \<and> truthy (Some v))))
   \<and>
   (list_all (\<lambda>l. nl \<notin> set l \<and> \<not> stops parse l) ls \<and>
    nl \<notin> set p \<and> parse p = Some u \<and> member u ''type'' = Some (JStr ''complete'') \<and>
    \<not> truthy (member u ''result'') \<and>
    fst (decode_all dec d0 cs) = unlines (ls @ [data_line p]) @ extra \<and>
    ok resp \<and> body resp = Some (map Chunk cs @ rest) \<longrightarrow>
      (\<exists>h' r. connectSSE parse P captured dec d0 (FetchResolved resp) h = (h', Some r) \<and>
         cancelled r \<and> isComplete h' \<and>
         calls h' =
           calls h @ SetIsConnected True # map SetData (parsed_frames parse ls) @
           [SetData u, SetIsComplete True]))"
proof (intro conjI impI)
  obtain es cs where log:
    "calls (fst (connectSSE parse P captured dec d0 fr h)) = calls h @ es @ cs"
    "justified P es" "\<forall>v. OnComplete v \<notin> set cs"
    using connectSSE_log [of parse P captured dec d0 fr h] by blast
  have "\<forall>v. OnComplete v \<in> set (es @ cs) \<longrightarrow>
         has_onComplete P \<and>
         (\<exists>u. SetData u \<in> set (es @ cs) \<and> member u ''type'' = Some (JStr ''complete'') \<and>
              member u ''result'' = Some v \<and> truthy (Some v))"
    using log(2,3) unfolding justified_def by (simp only: set_append Un_iff) blast
  then show "\<exists>es. calls (fst (connectSSE parse P captured dec d0 fr h)) = calls h @ es \<and>
      (\<forall>v. OnComplete v \<in> set es \<longrightarrow>
         has_onComplete P \<and>
         (\<exists>u. SetData u \<in> set es \<and> member u ''type'' = Some (JStr ''complete'') \<and>
              member u ''result'' = Some v \<and> truthy (Some v)))"
    using log(1) by blast
next
  assume b: "list_all (\<lambda>l. nl \<notin> set l \<and> \<not> stops parse l) ls \<and>
    nl \<notin> set p \<and> parse p = Some u \<and> member u ''type'' = Some (JStr ''complete'') \<and>
    \<not> truthy (member u ''result'') \<and>
    fst (decode_all dec d0 cs) = unlines (ls @ [data_line p]) @ extra \<and>
    ok resp \<and> body resp = Some (map Chunk cs @ rest)"
  then have ls: "list_all (\<lambda>l. nl \<notin> set l \<and> \<not> stops parse l) ls"
    and pu: "parse p = Some u" and ty: "member u ''type'' = Some (JStr ''complete'')"
    and falsy: "\<not> truthy (member u ''result'')"
    and tx: "fst (decode_all dec d0 cs) = unlines (ls @ [data_line p]) @ extra"
    and resp: "ok resp" "body resp = Some (map Chunk cs @ rest)"
    by simp_all
  have n: "nl \<notin> set (data_line p)"
    using b by (simp add: data_line_simps)
  have st: "stops parse (data_line p)"
    using pu ty by (rule stops_data_line(2))
  from connectSSE_stops [OF tx ls n st resp, of P captured h]
  show "\<exists>h' r. connectSSE parse P captured dec d0 (FetchResolved resp) h = (h', Some r) \<and>
         cancelled r \<and> isComplete h' \<and>
         calls h' =
           calls h @ SetIsConnected True # map SetData (parsed_frames parse ls) @
           [SetData u, SetIsComplete True]"
    using falsy
    by (auto simp: handle_line_complete [of parse p u, OF pu ty] emit_all_fields
        setIsComplete_def setIsConnected_def setData_def)
qed

theorem onComplete_needs_truthy_result_witness:
  "(\<exists>u. SetData u \<in> set (calls (fst (connectSSE demo_parse demo_options False decode_text ()
            (FetchResolved (ok_response [Chunk (data_line complete_json @ [nl])]))
            initial_hook))) \<and>
        member u ''type'' = Some (JStr ''complete'') \<and>
        member u ''result'' = Some (JObj [(''drug'', JStr ''warfarin'')]) \<and>
        truthy (Some (JObj [(''drug'', JStr ''warfarin'')])))
   \<and>
   (\<exists>h' r. connectSSE demo_parse demo_options False decode_text ()
        (FetchResolved (ok_response
           [Chunk (data_line progress_json @ [nl] @ data_line null_result_json @ [nl])]))
        initial_hook = (h', Some r) \<and>
      cancelled r \<and> isComplete h' \<and>
      calls h' =
        [SetIsConnected True, SetData progress_value, SetData null_result_value,
         SetIsComplete True])"
proof -
  have run: "calls (fst (connectSSE demo_parse demo_options False decode_text ()
            (FetchResolved (ok_response [Chunk (data_line complete_json @ [nl])]))
            initial_hook)) =
      [SetIsConnected True, SetData complete_value, SetIsComplete True,
       OnComplete (JObj [(''drug'', JStr ''warfarin'')])]"
    by code_simp
  note inst = onComplete_needs_truthy_result [of demo_parse demo_options False decode_text "()"
      "FetchResolved (ok_response [Chunk (data_line complete_json @ [nl])])" initial_hook
      "[data_line progress_json]" null_result_json null_result_value
      "[data_line progress_json @ [nl] @ data_line null_result_json @ [nl]]" "[]"
      "ok_response [Chunk (data_line progress_json @ [nl] @ data_line null_result_json @ [nl])]"
      "[]"]
  from inst obtain es where es:
    "calls (fst (connectSSE demo_parse demo_options False decode_text ()
            (FetchResolved (ok_response [Chunk (data_line complete_json @ [nl])]))
            initial_hook)) = calls initial_hook @ es"
    "\<forall>v. OnComplete v \<in> set es \<longrightarrow>
         has_onComplete demo_options \<and>
         (\<exists>u. SetData u \<in> set es \<and> member u ''type'' = Some (JStr ''complete'') \<and>
              member u ''result'' = Some v \<and> truthy (Some v))"
    by blast
  have "es = [SetIsConnected True, SetData complete_value, SetIsComplete True,
       OnComplete (JObj [(''drug'', JStr ''warfarin'')])]"
    using es(1) run by (simp add: initial_hook_def)
  then have "OnComplete (JObj [(''drug'', JStr ''warfarin'')]) \<in> set es"
    by simp
  with es(2) have first: "\<exists>u. SetData u \<in> set es \<and> member u ''type'' = Some (JStr ''complete'') \<and>
              member u ''result'' = Some (JObj [(''drug'', JStr ''warfarin'')]) \<and>
              truthy (Some (JObj [(''drug'', JStr ''warfarin'')]))"
    by blast
  have second: "\<exists>h' r. connectSSE demo_parse demo_options False decode_text ()
        (FetchResolved (ok_response
           [Chunk (data_line progress_json @ [nl] @ data_line null_result_json @ [nl])]))
        initial_hook = (h', Some r) \<and>
      cancelled r \<and> isComplete h' \<and>
      calls h' =
        [SetIsConnected True, SetData progress_value, SetData null_result_value,
         SetIsComplete True]"
    using inst
    by (simp add: demo_defs decode_text_def ok_response_def ok_def unlines_def data_line_def
      nl_def initial_hook_def stops_def startsWith_def slice_def parsed_frames_def frame_of_def
      map_filter_simps demo_options_def)
  show ?thesis
    using first second es(1) by (simp add: initial_hook_def)
qed

text \<open>
  C9, as the code has it. The stream ends, and no completed line has stopped the reader:
  the chunks decode to completed lines \<open>ls\<close>, none of them a terminal frame or a
  \<open>data: \<close> line that fails, and a last piece \<open>tail\<close> without a line feed. Then the
  session ends with the error state \<open>null\<close> and \<open>isComplete\<close> false, and its log holds
  the resets, the connection flag and the frames of \<open>ls\<close>: no error and no callback. The
  piece \<open>tail\<close> has no part in the result, whatever it is.
\<close>

theorem clean_end_is_silent:
  assumes on: "enabled P" "url \<noteq> []"
    and ls: "list_all (\<lambda>l. nl \<notin> set l \<and> \<not> stops parse l) ls"
    and tx: "fst (decode_all dec d0 cs) = unlines ls @ tail"
    and tail: "nl \<notin> set tail"
    and resp: "ok resp" "body resp = Some (map Chunk cs)"
  shows "\<exists>h'. useSSE_effect parse url P dec d0 (FetchResolved resp) h = (h', Some (getReader []))
      \<and> error h' = JNull \<and> \<not> isComplete h'
      \<and> calls h' =
          calls h @
          [SetData JNull, SetIsComplete False, SetError JNull, SetIsConnected False,
           SetIsConnected True] @
          map SetData (parsed_frames parse ls)"
  by (simp add: useSSE_effect_enabled [OF on] connectSSE_runs_out [OF tx ls tail resp]
      emit_all_fields reset_fields setIsConnected_def)

theorem clean_end_is_silent_witness:
  "\<exists>h'. useSSE_effect demo_parse demo_url demo_options decode_text ()
       (FetchResolved (ok_response
          [Chunk (data_line progress_json @ [nl] @ ''retry: 3''),
           Chunk ([nl] @ data_line complete_json)]))
       initial_hook = (h', Some (getReader []))
      \<and> error h' = JNull \<and> \<not> isComplete h'
      \<and> calls h' =
          [SetData JNull, SetIsComplete False, SetError JNull, SetIsConnected False,
           SetIsConnected True, SetData progress_value]"
  using clean_end_is_silent [of demo_options demo_url demo_parse
      "[data_line progress_json, ''retry: 3'']" decode_text "()"
      "[data_line progress_json @ [nl] @ ''retry: 3'', [nl] @ data_line complete_json]"
      "data_line complete_json"
      "ok_response
          [Chunk (data_line progress_json @ [nl] @ ''retry: 3''),
           Chunk ([nl] @ data_line complete_json)]"
      initial_hook]
  by (simp add: demo_defs decode_text_def ok_response_def ok_def unlines_def data_line_def
      nl_def initial_hook_def stops_def startsWith_def slice_def parsed_frames_def frame_of_def
      map_filter_simps demo_options_def demo_url_def)

text \<open>
  The claim excludes only the terminal frames. A \<open>data: \<close> line that does not parse is
  not one of them; when the stream ends after such a line, no terminal frame has been
  parsed and the error state is set.
\<close>

theorem clean_end_counterexample:
  "useSSE_effect demo_parse demo_url demo_options decode_text ()
      (FetchResolved (ok_response [Chunk (data_line malformed_json @ [nl])]))
      initial_hook =
     (\<lparr>data = JNull, isConnected = True, isComplete = False,
        error = JStr ''Failed to parse progress update'',
        calls =
          [SetData JNull, SetIsComplete False, SetError JNull, SetIsConnected False,
           SetIsConnected True, ConsoleError ''Failed to parse SSE message:'',
           SetError (JStr ''Failed to parse progress update'')]\<rparr>,
      Some \<lparr>pending = [], cancelled = True\<rparr>)"
  by code_simp

text \<open>
  C10. Whatever the input, each call of \<open>onError\<close> in the log of a connection has one of
  two causes: an emitted frame of the type \<open>error\<close>, whose message (or the default text)
  it was passed, or a failure of the transport: \<open>fetch\<close> rejected, the status was not
  200 to 299, the response had no body, or a read was rejected. And when a \<open>data: \<close>
  line that does not parse is reached, the error state is set to the parse failure's text
  and the log of the connection holds no call of \<open>onError\<close>.
\<close>

theorem onError_not_for_parse_failure:
  "(\<exists>es. calls (fst (connectSSE parse P captured dec d0 fr h)) = calls h @ es \<and>
      (\<forall>m. OnError m \<in> set es \<longrightarrow>
         (\<exists>u. SetData u \<in> set es \<and> member u ''type'' = Some (JStr ''error'') \<and>
              m = js_or (member u ''message'') (JStr ''Analysis failed'')) \<or>
         (\<exists>e. fr = FetchRejected e) \<or>
         (\<exists>resp. fr = FetchResolved resp \<and>
            (\<not> ok resp \<or> body resp = None \<or>
             (\<exists>e src. body resp = Some src \<and> Rejected e \<in> set src)))))
   \<and>
   (list_all (\<lambda>l. nl \<notin> set l \<and> \<not> stops parse l) ls \<and>
    nl \<notin> set p \<and> parse p = None \<and>
    fst (decode_all dec d0 cs) = unlines (ls @ [data_line p]) @ extra \<and>
    ok resp \<and> body resp = Some (map Chunk cs @ rest) \<longrightarrow>
      (\<exists>es. calls (fst (connectSSE parse P captured dec d0 (FetchResolved resp) h)) =
              calls h @ es \<and>
         error (fst (connectSSE parse P captured dec d0 (FetchResolved resp) h)) =
           JStr ''Failed to parse progress update'' \<and>
         SetError (JStr ''Failed to parse progress update'') \<in> set es \<and>
         (\<forall>m. OnError m \<notin> set es)))"
proof (intro conjI impI)
  obtain es cs where log:
    "calls (fst (connectSSE parse P captured dec d0 fr h)) = calls h @ es @ cs"
    "justified P es"
    "cs = [] \<or> (\<exists>err. fst (connect_try parse P dec d0 fr h) = Some err)"
    using connectSSE_log [of parse P captured dec d0 fr h] by blast
  let ?cause = "(\<exists>e. fr = FetchRejected e) \<or>
         (\<exists>resp. fr = FetchResolved resp \<and>
            (\<not> ok resp \<or> body resp = None \<or>
             (\<exists>e src. body resp = Some src \<and> Rejected e \<in> set src)))"
  have cause: "cs \<noteq> [] \<Longrightarrow> ?cause"
    using log(3) connect_try_error_cause [of parse P dec d0 fr h] by blast
  have "\<forall>m. OnError m \<in> set (es @ cs) \<longrightarrow>
         (\<exists>u. SetData u \<in> set (es @ cs) \<and> member u ''type'' = Some (JStr ''error'') \<and>
              m = js_or (member u ''message'') (JStr ''Analysis failed'')) \<or> ?cause"
  proof (intro allI impI)
    fix m
    assume "OnError m \<in> set (es @ cs)"
    then consider "OnError m \<in> set es" | "OnError m \<in> set cs" by auto
    then show "(\<exists>u. SetData u \<in> set (es @ cs) \<and>
          member u ''type'' = Some (JStr ''error'') \<and>
          m = js_or (member u ''message'') (JStr ''Analysis failed'')) \<or> ?cause"
    proof cases
      case 1
      then obtain u where "SetData u \<in> set es" "member u ''type'' = Some (JStr ''error'')"
        "m = js_or (member u ''message'') (JStr ''Analysis failed'')"
        using log(2) unfolding justified_def by blast
      then show ?thesis by auto
    next
      case 2
      then have "cs \<noteq> []" by auto
      then show ?thesis using cause by blast
    qed
  qed
  then show "\<exists>es. calls (fst (connectSSE parse P captured dec d0 fr h)) = calls h @ es \<and>
      (\<forall>m. OnError m \<in> set es \<longrightarrow>
         (\<exists>u. SetData u \<in> set es \<and> member u ''type'' = Some (JStr ''error'') \<and>
              m = js_or (member u ''message'') (JStr ''Analysis failed'')) \<or> ?cause)"
    using log(1) by blast
next
  assume b: "list_all (\<lambda>l. nl \<notin> set l \<and> \<not> stops parse l) ls \<and>
    nl \<notin> set p \<and> parse p = None \<and>
    fst (decode_all dec d0 cs) = unlines (ls @ [data_line p]) @ extra \<and>
    ok resp \<and> body resp = Some (map Chunk cs @ rest)"
  then have ls: "list_all (\<lambda>l. nl \<notin> set l \<and> \<not> stops parse l) ls"
    and pn: "parse p = None"
    and tx: "fst (decode_all dec d0 cs) = unlines (ls @ [data_line p]) @ extra"
    and resp: "ok resp" "body resp = Some (map Chunk cs @ rest)"
    by simp_all
  have n: "nl \<notin> set (data_line p)"
    using b by (simp add: data_line_simps)
  have st: "stops parse (data_line p)"
    using pn by (rule stops_data_line(1))
  let ?es = "SetIsConnected True # map SetData (parsed_frames parse ls) @
           [ConsoleError ''Failed to parse SSE message:'',
            SetError (JStr ''Failed to parse progress update'')]"
  from connectSSE_stops [OF tx ls n st resp, of P captured h]
  have "calls (fst (connectSSE parse P captured dec d0 (FetchResolved resp) h)) = calls h @ ?es"
    and "error (fst (connectSSE parse P captured dec d0 (FetchResolved resp) h)) =
           JStr ''Failed to parse progress update''"
    by (auto simp: handle_line_parse_error [of parse p, OF pn] emit_all_fields
        setError_def logged_def setIsConnected_def)
  moreover have "SetError (JStr ''Failed to parse progress update'') \<in> set ?es"
    by simp
  moreover have "\<forall>m. OnError m \<notin> set ?es"
    by auto
  ultimately show "\<exists>es. calls (fst (connectSSE parse P captured dec d0 (FetchResolved resp) h)) =
              calls h @ es \<and>
         error (fst (connectSSE parse P captured dec d0 (FetchResolved resp) h)) =
           JStr ''Failed to parse progress update'' \<and>
         SetError (JStr ''Failed to parse progress update'') \<in> set es \<and>
         (\<forall>m. OnError m \<notin> set es)"
    by blast
qed

theorem onError_not_for_parse_failure_witness:
  "(\<exists>u. SetData u \<in> set (calls (fst (connectSSE demo_parse demo_options False decode_text ()
            (FetchResolved (ok_response [Chunk (data_line error_json @ [nl])]))
            initial_hook))) \<and>
        member u ''type'' = Some (JStr ''error'') \<and>
        JStr ''DrugBank unavailable'' = js_or (member u ''message'') (JStr ''Analysis failed''))
   \<and>
   (\<exists>es. calls (fst (connectSSE demo_parse demo_options False decode_text ()
        (FetchResolved (ok_response
           [Chunk (data_line progress_json @ [nl] @ data_line malformed_json @ [nl])]))
        initial_hook)) = calls initial_hook @ es \<and>
      error (fst (connectSSE demo_parse demo_options False decode_text ()
        (FetchResolved (ok_response
           [Chunk (data_line progress_json @ [nl] @ data_line malformed_json @ [nl])]))
        initial_hook)) = JStr ''Failed to parse progress update'' \<and>
      SetError (JStr ''Failed to parse progress update'') \<in> set es \<and>
      (\<forall>m. OnError m \<notin> set es))"
proof -
  have run: "calls (fst (connectSSE demo_parse demo_options False decode_text ()
            (FetchResolved (ok_response [Chunk (data_line error_json @ [nl])]))
            initial_hook)) =
      [SetIsConnected True, SetData error_value, SetError (JStr ''DrugBank unavailable''),
       OnError (JStr ''DrugBank unavailable'')]"
    by code_simp
  note inst = onError_not_for_parse_failure [of demo_parse demo_options False decode_text "()"
      "FetchResolved (ok_response [Chunk (data_line error_json @ [nl])])" initial_hook
      "[data_line progress_json]" malformed_json
      "[data_line progress_json @ [nl] @ data_line malformed_json @ [nl]]" "[]"
      "ok_response [Chunk (data_line progress_json @ [nl] @ data_line malformed_json @ [nl])]"
      "[]"]
  from inst obtain es where es:
    "calls (fst (connectSSE demo_parse demo_options False decode_text ()
            (FetchResolved (ok_response [Chunk (data_line error_json @ [nl])]))
            initial_hook)) = calls initial_hook @ es"
    "\<forall>m. OnError m \<in> set es \<longrightarrow>
         (\<exists>u. SetData u \<in> set es \<and> member u ''type'' = Some (JStr ''error'') \<and>
              m = js_or (member u ''message'') (JStr ''Analysis failed'')) \<or>
         (\<exists>e. FetchResolved (ok_response [Chunk (data_line error_json @ [nl])]) =
              FetchRejected e) \<or>
         (\<exists>resp. FetchResolved (ok_response [Chunk (data_line error_json @ [nl])]) =
              FetchResolved resp \<and>
            (\<not> ok resp \<or> body resp = None \<or>
             (\<exists>e src. body resp = Some src \<and> Rejected e \<in> set src)))"
    by blast
  have "es = [SetIsConnected True, SetData error_value, SetError (JStr ''DrugBank unavailable''),
       OnError (JStr ''DrugBank unavailable'')]"
    using es(1) run by (simp add: initial_hook_def)
  then have "OnError (JStr ''DrugBank unavailable'') \<in> set es"
    by simp
  with es(2) have first: "\<exists>u. SetData u \<in> set es \<and> member u ''type'' = Some (JStr ''error'') \<and>
      JStr ''DrugBank unavailable'' = js_or (member u ''message'') (JStr ''Analysis failed'')"
    by (auto simp: ok_response_def ok_def)
  have second: "\<exists>es. calls (fst (connectSSE demo_parse demo_options False decode_text ()
        (FetchResolved (ok_response
           [Chunk (data_line progress_json @ [nl] @ data_line malformed_json @ [nl])]))
        initial_hook)) = calls initial_hook @ es \<and>
      error (fst (connectSSE demo_parse demo_options False decode_text ()
        (FetchResolved (ok_response
           [Chunk (data_line progress_json @ [nl] @ data_line malformed_json @ [nl])]))
        initial_hook)) = JStr ''Failed to parse progress update'' \<and>
      SetError (JStr ''Failed to parse progress update'') \<in> set es \<and>
      (\<forall>m. OnError m \<notin> set es)"
    using inst
    by (simp add: demo_defs decode_text_def ok_response_def ok_def unlines_def data_line_def
      nl_def stops_def startsWith_def slice_def)
  show ?thesis
    using first second es(1) by (simp add: initial_hook_def)
qed

end
